theory Spec2Isabelle
  imports Complex_Main "HOL-Library.AList" "HOL-Library.Multiset"
begin

section \<open>Data model of the attendance store\<close>

text \<open>
  The store of \<^verbatim>\<open>frontend/src/utils/attendanceUtils.js\<close> lives in the browser's
  \<^verbatim>\<open>localStorage\<close>. The model keeps the decoded values:
  \<^item> a JavaScript value that is a string or \<^verbatim>\<open>undefined\<close>/\<^verbatim>\<open>null\<close> is a
    \<open>string option\<close>; it is truthy when it is a non-empty string;
  \<^item> a calendar date key \<^verbatim>\<open>YYYY-MM-DD\<close> (what
    \<^verbatim>\<open>new Date().toISOString().split('T')[0]\<close> yields) is its day number since
    1970-01-01 in UTC, so that \<^verbatim>\<open>new Date(key)\<close> is midnight UTC of that day;
  \<^item> an instant is a number of milliseconds since the epoch; the \<^verbatim>\<open>timestamp\<close> of an
    entry, a string written by \<^verbatim>\<open>toLocaleString()\<close>, is represented by the instant it
    was written at (\<open>None\<close> when the field is missing). What \<^verbatim>\<open>new Date(timestamp)\<close>
    reads from such a string depends on the browser and is a separate input, \<open>Date_read\<close>;
  \<^item> the JSON text under a key is represented by the value \<^verbatim>\<open>JSON.parse\<close> returns for
    it, or by a constructor saying that \<^verbatim>\<open>JSON.parse\<close> throws on it; the object under
    an \<^verbatim>\<open>attendanceData_<email>\<close> key is an association list from date keys to lists of
    entries, read with \<open>map_of\<close> and written with \<open>AList.update\<close>, which like a
    JavaScript object keeps an existing key in place and appends a new one.
  An entry has the five fields the code reads and writes, and \<^verbatim>\<open>localStorage.setItem\<close> is
  taken to succeed. Each function is modelled as one call running alone: the storage it sees
  after an \<^verbatim>\<open>await\<close> is the one it saw before.
\<close>

record face =
  name :: "string option"
  roll_number :: "string option"
  timestamp :: "int option"
  confidence :: "real option"
  status :: "string option"

datatype js_error = SyntaxError | TypeError

datatype user_item = UserNotJSON | UserObj "string option"

datatype attendance_item = NotJSON | DayMap "(int \<times> face list) list"

record localStorage =
  user :: "user_item option"
  user_email :: "string option"
  token :: "string option"
  attendanceData :: "string \<Rightarrow> attendance_item option"

text \<open>\<^verbatim>\<open>new Date(now).toISOString().split('T')[0]\<close>: the UTC calendar date of an
  instant, as a day number.\<close>

definition utc_date :: "int \<Rightarrow> int" where
  "utc_date now = now div 86400000"

definition truthy :: "string option \<Rightarrow> bool" where
  "truthy v = (case v of None \<Rightarrow> False | Some s \<Rightarrow> s \<noteq> [])"

text \<open>\<^verbatim>\<open>JSON.parse(localStorage.getItem(storageKey) || '{}')\<close>: a missing item reads as
  the empty object, an item that is not JSON makes \<^verbatim>\<open>JSON.parse\<close> throw.\<close>

definition parse_attendance :: "attendance_item option \<Rightarrow> js_error + (int \<times> face list) list" where
  "parse_attendance item =
     (case item of
        None \<Rightarrow> Inr []
      | Some NotJSON \<Rightarrow> Inl SyntaxError
      | Some (DayMap storedData) \<Rightarrow> Inr storedData)"

text \<open>\<^verbatim>\<open>storedData[date]\<close>, and the same read through the persisted item of a user.\<close>

definition partition_of :: "localStorage \<Rightarrow> string \<Rightarrow> int \<Rightarrow> face list option" where
  "partition_of ls email date =
     (case attendanceData ls email of
        Some (DayMap storedData) \<Rightarrow> map_of storedData date
      | _ \<Rightarrow> None)"

section \<open>The store's operations\<close>

definition setUserEmail :: "localStorage \<Rightarrow> js_error + (string option \<times> localStorage)" where
  "setUserEmail ls =
     (case user ls of
        None \<Rightarrow> Inr (None, ls)
      | Some UserNotJSON \<Rightarrow> Inl SyntaxError
      | Some (UserObj email) \<Rightarrow>
          if truthy email then Inr (email, ls\<lparr>user_email := email\<rparr>) else Inr (None, ls))"

definition isDuplicate :: "face list \<Rightarrow> face \<Rightarrow> bool" where
  "isDuplicate faces recognizedFace =
     list_ex (\<lambda>f. roll_number f = roll_number recognizedFace \<or> name f = name recognizedFace) faces"

text \<open>The entry \<open>addFace\<close> stores. \<open>stamp\<close> is the instant at which its timestamp
  string \<^verbatim>\<open>new Date().toLocaleString()\<close> is written; the field holds the string, and
  nothing here says that \<^verbatim>\<open>new Date\<close> can read it again.\<close>

definition newEntry :: "face \<Rightarrow> int \<Rightarrow> face" where
  "newEntry recognizedFace stamp =
     recognizedFace\<lparr>
       timestamp := Some stamp,
       confidence := (case confidence recognizedFace of
                        None \<Rightarrow> Some 0
                      | Some c \<Rightarrow> if c = 0 then Some 0 else Some c),
       status := (if truthy (status recognizedFace) then status recognizedFace
                  else Some ''Recognized'')\<rparr>"

text \<open>\<^verbatim>\<open>xs.slice(-n)\<close>: the last \<open>n\<close> elements, all of them when there are fewer.\<close>

definition slice_last :: "nat \<Rightarrow> 'a list \<Rightarrow> 'a list" where
  "slice_last n xs = drop (length xs - n) xs"

definition push_capped :: "face list \<Rightarrow> face \<Rightarrow> face list" where
  "push_capped faces entry =
     (let pushed = faces @ [entry]
      in if length pushed > 50 then slice_last 50 pushed else pushed)"

text \<open>
  \<open>addFace recognizedFace today stamp ls\<close>: \<open>today\<close> and \<open>stamp\<close> are the two readings of
  the clock the function takes (the date key and the entry's timestamp). The result is the
  returned entry (\<open>None\<close> for \<^verbatim>\<open>undefined\<close>) and the storage afterwards. Every exception
  is caught by the function's own \<^verbatim>\<open>try/catch\<close>, which returns \<^verbatim>\<open>undefined\<close>.
\<close>

definition addFace :: "face option \<Rightarrow> int \<Rightarrow> int \<Rightarrow> localStorage \<Rightarrow> face option \<times> localStorage" where
  "addFace recognizedFace today stamp ls =
     (case recognizedFace of
        None \<Rightarrow> (None, ls)
      | Some rf \<Rightarrow>
          if \<not> truthy (name rf) \<or> \<not> truthy (roll_number rf) then (None, ls)
          else
            (case (if truthy (user_email ls) then Inr (user_email ls, ls) else setUserEmail ls) of
               Inl err \<Rightarrow> (None, ls)
             | Inr (userEmail, ls1) \<Rightarrow>
                 (case userEmail of
                    None \<Rightarrow> (None, ls1)
                  | Some email \<Rightarrow>
                      if email = [] then (None, ls1)
                      else
                        (case parse_attendance (attendanceData ls1 email) of
                           Inl err \<Rightarrow> (None, ls1)
                         | Inr storedData0 \<Rightarrow>
                             let storedData =
                                   (if map_of storedData0 today = None
                                    then AList.update today [] storedData0 else storedData0);
                                 faces = (case map_of storedData today of
                                            None \<Rightarrow> [] | Some fs \<Rightarrow> fs)
                             in if \<not> isDuplicate faces rf
                                then
                                  let entry = newEntry rf stamp;
                                      storedData' =
                                        AList.update today (push_capped faces entry) storedData
                                  in (Some entry,
                                      ls1\<lparr>attendanceData :=
                                            (attendanceData ls1)(email \<mapsto> DayMap storedData')\<rparr>)
                                else (None, ls1)))))"

text \<open>
  What the browser at hand contributes to a call of \<open>getTodaysFaces\<close>.
  \<^item> \<open>Date_read t\<close> is what \<^verbatim>\<open>new Date(s)\<close> reads from the string \<open>s\<close> that
    \<^verbatim>\<open>toLocaleString()\<close> wrote at the instant \<open>t\<close>: an instant, or \<open>None\<close> for an
    invalid date, whose time value is \<^verbatim>\<open>NaN\<close>. The format of \<open>s\<close> follows the locale, and
    \<^verbatim>\<open>new Date\<close> is not bound to read it: a day-first string such as
    \<^verbatim>\<open>13/11/2026, 10:55:00\<close> is one it does not.
  \<^item> \<open>sort_order\<close> fixes the order in which the engine leaves an array when the comparison
    function is not consistent, where ECMAScript leaves the order to the implementation.
\<close>

record browser =
  Date_read :: "int \<Rightarrow> int option"
  sort_order :: "nat list"

text \<open>\<^verbatim>\<open>new Date(face.timestamp)\<close>: a missing field reads as an invalid date too.\<close>

definition new_Date :: "(int \<Rightarrow> int option) \<Rightarrow> int option \<Rightarrow> int option" where
  "new_Date read ts = (case ts of None \<Rightarrow> None | Some t \<Rightarrow> read t)"

text \<open>The comparison of \<open>getTodaysFaces\<close>:
  \<^verbatim>\<open>(a, b) => new Date(b.timestamp) - new Date(a.timestamp)\<close>. \<open>None\<close> is \<^verbatim>\<open>NaN\<close>.\<close>

definition mostRecentFirst :: "(int \<Rightarrow> int option) \<Rightarrow> face \<Rightarrow> face \<Rightarrow> int option" where
  "mostRecentFirst read a b =
     (case new_Date read (timestamp b) of
        None \<Rightarrow> None
      | Some tb \<Rightarrow> (case new_Date read (timestamp a) of None \<Rightarrow> None | Some ta \<Rightarrow> Some (tb - ta)))"

text \<open>
  \<^verbatim>\<open>Array.prototype.sort(comparefn)\<close> as ECMAScript specifies it. The comparison the sort
  works with is \<open>SortCompare\<close>, in which \<^verbatim>\<open>NaN\<close> counts as \<open>0\<close>. When \<open>comparefn\<close> is a
  consistent comparison function for the elements (it never yields \<^verbatim>\<open>NaN\<close>, and its
  classes of equal elements are totally ordered), the result is the one stable sort, in
  which \<open>a\<close> stands before \<open>b\<close> when \<open>comparefn a b < 0\<close>; \<open>array_sort\<close> computes it
  by insertion. Otherwise the order is the implementation's: some permutation of the
  elements, here the one \<open>pick_order\<close> reads off the given list of choices (the array as
  it is for the empty list).
\<close>

definition SortCompare :: "('a \<Rightarrow> 'a \<Rightarrow> int option) \<Rightarrow> 'a \<Rightarrow> 'a \<Rightarrow> int" where
  "SortCompare comparefn a b = (case comparefn a b of None \<Rightarrow> 0 | Some v \<Rightarrow> v)"

definition consistent :: "('a \<Rightarrow> 'a \<Rightarrow> int option) \<Rightarrow> 'a list \<Rightarrow> bool" where
  "consistent comparefn xs =
     list_all (\<lambda>a. list_all (\<lambda>b. list_all (\<lambda>c.
         comparefn a b \<noteq> None \<and>
         SortCompare comparefn a a = 0 \<and>
         (SortCompare comparefn a b = 0 \<longrightarrow> SortCompare comparefn b a = 0) \<and>
         (SortCompare comparefn a b = 0 \<and> SortCompare comparefn b c = 0 \<longrightarrow>
            SortCompare comparefn a c = 0) \<and>
         (SortCompare comparefn a b < 0 \<and> SortCompare comparefn b c < 0 \<longrightarrow>
            SortCompare comparefn a c < 0) \<and>
         (SortCompare comparefn a b > 0 \<and> SortCompare comparefn b c > 0 \<longrightarrow>
            SortCompare comparefn a c > 0)) xs) xs) xs"

fun place :: "('a \<Rightarrow> 'a \<Rightarrow> int) \<Rightarrow> 'a \<Rightarrow> 'a list \<Rightarrow> 'a list" where
  "place cmp a [] = [a]"
| "place cmp a (b # bs) = (if 0 < cmp a b then b # place cmp a bs else a # b # bs)"

fun array_sort :: "('a \<Rightarrow> 'a \<Rightarrow> int) \<Rightarrow> 'a list \<Rightarrow> 'a list" where
  "array_sort cmp [] = []"
| "array_sort cmp (a # as) = place cmp a (array_sort cmp as)"

fun pick_order :: "nat list \<Rightarrow> 'a list \<Rightarrow> 'a list" where
  "pick_order [] xs = xs"
| "pick_order (c # cs) [] = []"
| "pick_order (c # cs) (x # xs) =
     (x # xs) ! (c mod Suc (length xs)) #
     pick_order cs (take (c mod Suc (length xs)) (x # xs) @
                    drop (Suc (c mod Suc (length xs))) (x # xs))"

definition Array_sort :: "nat list \<Rightarrow> ('a \<Rightarrow> 'a \<Rightarrow> int option) \<Rightarrow> 'a list \<Rightarrow> 'a list" where
  "Array_sort order comparefn xs =
     (if consistent comparefn xs then array_sort (SortCompare comparefn) xs
      else pick_order order xs)"

text \<open>The order the list is meant to come out in, by the times the entries were stamped
  with: \<open>a\<close> may stand before \<open>b\<close> when both carry a timestamp and the one of \<open>a\<close> is not
  the earlier. \<open>reads_back\<close> says that the browser reads the timestamp of an entry back as
  the instant it was written at.\<close>

definition not_older :: "face \<Rightarrow> face \<Rightarrow> bool" where
  "not_older a b =
     (case timestamp a of
        None \<Rightarrow> False
      | Some ta \<Rightarrow> (case timestamp b of None \<Rightarrow> False | Some tb \<Rightarrow> tb \<le> ta))"

definition reads_back :: "(int \<Rightarrow> int option) \<Rightarrow> face \<Rightarrow> bool" where
  "reads_back read f = (case timestamp f of None \<Rightarrow> False | Some t \<Rightarrow> read t = Some t)"

text \<open>\<open>getTodaysFaces br today ls\<close> returns the list and the storage afterwards; the
  function never writes, so the storage is the one it was given.\<close>

definition getTodaysFaces :: "browser \<Rightarrow> int \<Rightarrow> localStorage \<Rightarrow> face list \<times> localStorage" where
  "getTodaysFaces br today ls =
     (case user_email ls of
        None \<Rightarrow> ([], ls)
      | Some email \<Rightarrow>
          if email = [] then ([], ls)
          else
            (case parse_attendance (attendanceData ls email) of
               Inl err \<Rightarrow> ([], ls)
             | Inr storedData \<Rightarrow>
                 let todaysFaces = (case map_of storedData today of None \<Rightarrow> [] | Some fs \<Rightarrow> fs)
                 in (Array_sort (sort_order br) (mostRecentFirst (Date_read br)) todaysFaces,
                     ls)))"

subsection \<open>The HTTP client\<close>

text \<open>
  What the network delivers for a request is an input of the model: nothing at all (no
  connection, or the 10 second timeout), or a status code with a decoded body.
  \<open>axios_post\<close> is the library's default behaviour: the promise resolves for a status
  from 200 to 299 and rejects otherwise.
\<close>

datatype 'b http_reply = NoResponse | Reply nat 'b

datatype 'b axios_error = NetworkError | BadStatus nat 'b

definition axios_post :: "'b http_reply \<Rightarrow> 'b axios_error + nat \<times> 'b" where
  "axios_post reply =
     (case reply of
        NoResponse \<Rightarrow> Inl NetworkError
      | Reply code body \<Rightarrow>
          if 200 \<le> code \<and> code < 300 then Inr (code, body) else Inl (BadStatus code body))"

text \<open>The body of the answer to \<^verbatim>\<open>/delete_attendance\<close>: \<^verbatim>\<open>null\<close>, or a value whose
  \<^verbatim>\<open>status\<close> property reads as the given string or as \<^verbatim>\<open>undefined\<close>.\<close>

datatype delete_body = NullBody | StatusBody "string option"

subsection \<open>Deleting and cleaning up\<close>

definition deleteAttendance ::
  "string option \<Rightarrow> delete_body http_reply \<Rightarrow> int \<Rightarrow> localStorage \<Rightarrow> bool \<times> localStorage" where
  "deleteAttendance rollNumber reply today ls =
     (if \<not> truthy rollNumber then (False, ls)
      else
        (case user_email ls of
           None \<Rightarrow> (False, ls)
         | Some userEmail \<Rightarrow>
             if userEmail = [] \<or> \<not> truthy (token ls) then (False, ls)
             else
               (case axios_post reply of
                  Inl err \<Rightarrow> (False, ls)
                | Inr (code, NullBody) \<Rightarrow> (False, ls)
                | Inr (code, StatusBody tag) \<Rightarrow>
                    let isSuccessful = (tag = Some ''success'' \<or> code = 200)
                    in if isSuccessful
                       then
                         (case parse_attendance (attendanceData ls userEmail) of
                            Inl err \<Rightarrow> (False, ls)
                          | Inr storedData \<Rightarrow>
                              (case map_of storedData today of
                                 None \<Rightarrow> (True, ls)
                               | Some faces \<Rightarrow>
                                   let kept = filter (\<lambda>face. roll_number face \<noteq> rollNumber) faces
                                   in (True,
                                       ls\<lparr>attendanceData :=
                                            (attendanceData ls)
                                              (userEmail \<mapsto> DayMap (AList.update today kept storedData))\<rparr>)))
                       else (False, ls))))"

text \<open>\<^verbatim>\<open>(today - new Date(date)) / (1000 * 3600 * 24)\<close>, where \<^verbatim>\<open>today\<close> is the current
  instant \<open>now\<close> and \<^verbatim>\<open>new Date(date)\<close> is midnight UTC of the date key.\<close>

definition dayDifference :: "int \<Rightarrow> int \<Rightarrow> real" where
  "dayDifference now date = real_of_int (now - date * 86400000) / (1000 * 3600 * 24)"

text \<open>\<^verbatim>\<open>Object.keys(storedData)\<close>: an object has each of its keys once.\<close>

definition Object_keys :: "(int \<times> face list) list \<Rightarrow> int list" where
  "Object_keys storedData = remdups (map fst storedData)"

text \<open>The loop over \<^verbatim>\<open>Object.keys(storedData)\<close>: it deletes the keys that are too old and
  counts them.\<close>

fun cleanup_loop ::
  "real \<Rightarrow> int \<Rightarrow> int list \<Rightarrow> (int \<times> face list) list \<times> nat \<Rightarrow> (int \<times> face list) list \<times> nat" where
  "cleanup_loop daysToKeep now [] acc = acc"
| "cleanup_loop daysToKeep now (date # dates) (storedData, removedDates) =
     (if dayDifference now date > daysToKeep
      then cleanup_loop daysToKeep now dates (AList.delete date storedData, removedDates + 1)
      else cleanup_loop daysToKeep now dates (storedData, removedDates))"

text \<open>What a call of \<open>cleanupOldData\<close> leaves behind: the value it returns (\<open>None\<close> for
  \<^verbatim>\<open>undefined\<close>), the count it writes to the console when it gets that far, and the
  storage.\<close>

record cleanup_outcome =
  returned :: "nat option"
  logged :: "nat option"
  storage :: localStorage

definition cleanupOldData :: "real \<Rightarrow> int \<Rightarrow> localStorage \<Rightarrow> cleanup_outcome" where
  "cleanupOldData daysToKeep now ls =
     (case user_email ls of
        None \<Rightarrow> \<lparr>returned = None, logged = None, storage = ls\<rparr>
      | Some userEmail \<Rightarrow>
          if userEmail = [] then \<lparr>returned = None, logged = None, storage = ls\<rparr>
          else
            (case parse_attendance (attendanceData ls userEmail) of
               Inl err \<Rightarrow> \<lparr>returned = None, logged = None, storage = ls\<rparr>
             | Inr storedData \<Rightarrow>
                 (case cleanup_loop daysToKeep now (Object_keys storedData) (storedData, 0) of
                    (storedData', removedDates) \<Rightarrow>
                      \<lparr>returned = None, logged = Some removedDates,
                       storage = ls\<lparr>attendanceData :=
                                      (attendanceData ls)(userEmail \<mapsto> DayMap storedData')\<rparr>\<rparr>)))"

section \<open>The capture loop\<close>

text \<open>
  \<^verbatim>\<open>frontend/src/components/CameraInterface.js\<close>, function \<open>captureAndRecognize\<close>. The
  two refs it guards itself with are the throttle's state. The React state it also sets
  (\<^verbatim>\<open>isRecognizing\<close>, \<^verbatim>\<open>todaysFaces\<close>) and the \<^verbatim>\<open>onRecognizedFace\<close> callback of the
  parent component are display only and not part of the model.
\<close>

record throttle =
  lastRecognitionRef :: int
  isRecognizingRef :: bool

text \<open>A call of \<^verbatim>\<open>handleRecognitionError(errorStatus, errorMessage)\<close>, or a success toast
  for a recognized name.\<close>

datatype notice = RecognitionError "string option" string | RecognizedToast "string option"

text \<open>The body of the answer to \<^verbatim>\<open>/recognize\<close>: an array of recognition records, or any
  other value, given by what its \<^verbatim>\<open>status\<close> and \<^verbatim>\<open>error\<close> properties read as.\<close>

datatype recognize_body = FaceArray "face list" | ErrorBody "string option" "string option"

text \<open>The inputs of one call that do not come from the refs or the storage.\<close>

record capture_env =
  clock_now :: int
  webcam :: "string option option"
  blob_ok :: bool
  recognize_reply :: "recognize_body http_reply"
  clock_today :: int
  clock_stamp :: int

record capture_result =
  refs :: throttle
  store :: localStorage
  notices :: "notice list"
  posts :: nat

text \<open>The three guards at the head of \<open>captureAndRecognize\<close>, and the flag set as the
  first statement after them. \<open>None\<close> is the early return.\<close>

definition tryAcquire :: "throttle \<Rightarrow> int \<Rightarrow> bool \<Rightarrow> throttle option" where
  "tryAcquire thr now mounted =
     (if isRecognizingRef thr then None
      else if now - lastRecognitionRef thr < 10000 then None
      else if \<not> mounted then None
      else Some (thr\<lparr>isRecognizingRef := True\<rparr>))"

text \<open>\<^verbatim>\<open>webcamRef.current\<close> is set: the camera component is mounted.\<close>

definition webcam_mounted :: "capture_env \<Rightarrow> bool" where
  "webcam_mounted env = (webcam env \<noteq> None)"

text \<open>The end of an attempt: \<open>lastRecognitionRef\<close> is assigned on the line after the
  loop over the recognized faces, the flag is reset in the \<^verbatim>\<open>finally\<close> block.\<close>

definition release :: "throttle \<Rightarrow> int \<Rightarrow> bool \<Rightarrow> throttle" where
  "release thr now submitted =
     (if submitted then thr\<lparr>lastRecognitionRef := now\<rparr> else thr)\<lparr>isRecognizingRef := False\<rparr>"

text \<open>The record built from one element of the answer, with its defaults.\<close>

definition recognizedFace_of :: "face \<Rightarrow> int \<Rightarrow> face" where
  "recognizedFace_of recognitionData stamp =
     \<lparr>name = (if truthy (name recognitionData) then name recognitionData else Some ''Unknown''),
      roll_number = (if truthy (roll_number recognitionData) then roll_number recognitionData
                     else Some []),
      timestamp = Some stamp,
      confidence = (case confidence recognitionData of
                      None \<Rightarrow> Some 0
                    | Some c \<Rightarrow> if c = 0 then Some 0 else Some c),
      status = (if truthy (status recognitionData) then status recognitionData
                else Some ''Unknown'')\<rparr>"

fun forEach_recognized ::
  "int \<Rightarrow> int \<Rightarrow> face list \<Rightarrow> localStorage \<times> notice list \<Rightarrow> localStorage \<times> notice list" where
  "forEach_recognized today stamp [] acc = acc"
| "forEach_recognized today stamp (recognitionData # rest) (ls, shown) =
     (let recognizedFace = recognizedFace_of recognitionData stamp;
          ls' = snd (addFace (Some recognizedFace) today stamp ls)
      in forEach_recognized today stamp rest (ls', shown @ [RecognizedToast (name recognizedFace)]))"

text \<open>The signal for a missing token: the call
  \<^verbatim>\<open>handleRecognitionError('default', "No authentication token found. Please log in again.")\<close>.\<close>

definition Unauthenticated :: notice where
  "Unauthenticated =
     RecognitionError (Some ''default'') ''No authentication token found. Please log in again.''"

text \<open>
  \<open>recognize\<close> is the part of \<open>captureAndRecognize\<close> from the token check on, once the
  frame is packed: its result is whether the line that assigns \<open>lastRecognitionRef\<close> was
  reached, the storage, the notices shown and the number of calls of \<^verbatim>\<open>axios.post\<close>.
\<close>

definition recognize :: "capture_env \<Rightarrow> localStorage \<Rightarrow> bool \<times> localStorage \<times> notice list \<times> nat" where
  "recognize env ls =
     (if \<not> truthy (token ls) then (False, ls, [Unauthenticated], 0)
      else
        (case axios_post (recognize_reply env) of
           Inr (code, FaceArray faces) \<Rightarrow>
             (case forEach_recognized (clock_today env) (clock_stamp env) faces (ls, []) of
                (ls', shown) \<Rightarrow> (True, ls', shown, 1))
         | Inr (code, ErrorBody tag msg) \<Rightarrow> (False, ls, [], 1)
         | Inl (BadStatus code body) \<Rightarrow>
             (case body of
                FaceArray faces \<Rightarrow> (False, ls, [RecognitionError None ''Recognition failed''], 1)
              | ErrorBody errorStatus msg \<Rightarrow>
                  (False, ls,
                   [RecognitionError errorStatus
                      (case msg of None \<Rightarrow> ''Recognition failed''
                       | Some m \<Rightarrow> if m = [] then ''Recognition failed'' else m)], 1))
         | Inl NetworkError \<Rightarrow>
             (False, ls,
              [RecognitionError (Some ''default'')
                 ''No response from server. Check your connection.''], 1)))"

text \<open>The body of the \<^verbatim>\<open>try\<close> block: take the screenshot, pack it, then \<open>recognize\<close>.\<close>

definition attempt :: "capture_env \<Rightarrow> string option \<Rightarrow> localStorage \<Rightarrow> bool \<times> localStorage \<times> notice list \<times> nat" where
  "attempt env imageSrc ls =
     (if \<not> truthy imageSrc
      then (False, ls, [RecognitionError (Some ''face_detection_failed'') ''Failed to capture image''], 0)
      else if \<not> blob_ok env
      then (False, ls, [RecognitionError (Some ''default'') ''Error setting up recognition request''], 0)
      else recognize env ls)"

definition captureAndRecognize :: "capture_env \<Rightarrow> throttle \<Rightarrow> localStorage \<Rightarrow> capture_result" where
  "captureAndRecognize env thr ls =
     (case tryAcquire thr (clock_now env) (webcam_mounted env) of
        None \<Rightarrow> \<lparr>refs = thr, store = ls, notices = [], posts = 0\<rparr>
      | Some thr1 \<Rightarrow>
          (case attempt env (case webcam env of None \<Rightarrow> None | Some shot \<Rightarrow> shot) ls of
             (submitted, ls', shown, n) \<Rightarrow>
               \<lparr>refs = release thr1 (clock_now env) submitted, store = ls',
                notices = shown, posts = n\<rparr>))"

section \<open>Sample data\<close>

text \<open>Inputs on which the statements below are evaluated.\<close>

definition alice :: face where
  "alice = \<lparr>name = Some ''Alice'', roll_number = Some ''1'', timestamp = None,
            confidence = Some (9 / 10), status = None\<rparr>"

definition alice_again :: face where
  "alice_again = \<lparr>name = Some ''Alice'', roll_number = Some ''2'', timestamp = None,
                  confidence = None, status = None\<rparr>"

definition bob :: face where
  "bob = \<lparr>name = Some ''Bob'', roll_number = Some ''7'', timestamp = None,
          confidence = Some (4 / 5), status = Some ''Present''\<rparr>"

definition fresh_storage :: localStorage where
  "fresh_storage = \<lparr>user = None, user_email = Some ''teacher@example.org'',
                    token = Some ''jwt'', attendanceData = (\<lambda>email. None)\<rparr>"

definition busy_storage :: localStorage where
  "busy_storage =
     \<lparr>user = None, user_email = Some ''teacher@example.org'', token = Some ''jwt'',
      attendanceData =
        [''teacher@example.org'' \<mapsto> DayMap [(20758, [newEntry bob 1793530500000])],
         ''other@example.org'' \<mapsto> DayMap [(20759, [newEntry bob 1793616800000])]]\<rparr>"

definition week_storage :: localStorage where
  "week_storage =
     \<lparr>user = None, user_email = Some ''teacher@example.org'', token = Some ''jwt'',
      attendanceData =
        [''teacher@example.org'' \<mapsto>
           DayMap [(20751, [newEntry bob 1792925700000]),
                   (20752, [newEntry alice 1793012100000]),
                   (20753, [newEntry bob 1793098500000])]]\<rparr>"

definition numbered :: "nat \<Rightarrow> face" where
  "numbered i = \<lparr>name = Some (replicate (Suc i) CHR ''n''),
                 roll_number = Some (replicate (Suc i) CHR ''9''),
                 timestamp = Some (int i), confidence = Some 1, status = Some ''Recognized''\<rparr>"

definition full_storage :: localStorage where
  "full_storage =
     \<lparr>user = None, user_email = Some ''teacher@example.org'', token = Some ''jwt'',
      attendanceData =
        [''teacher@example.org'' \<mapsto> DayMap [(20759, map numbered [0..<50])]]\<rparr>"

text \<open>A browser that reads its own timestamp strings back, and one that reads none of them;
  both leave an array as it is where the order is theirs to choose.\<close>

definition en_US :: browser where
  "en_US = \<lparr>Date_read = Some, sort_order = []\<rparr>"

definition day_first :: browser where
  "day_first = \<lparr>Date_read = (\<lambda>t. None), sort_order = []\<rparr>"

definition sample_env :: capture_env where
  "sample_env =
     \<lparr>clock_now = 1793616900000, webcam = Some (Some ''data:image/jpeg;base64,AAAA''),
      blob_ok = True, recognize_reply = Reply 200 (FaceArray [alice]),
      clock_today = 20759, clock_stamp = 1793616900000\<rparr>"

definition idle :: throttle where
  "idle = \<lparr>lastRecognitionRef = 0, isRecognizingRef = False\<rparr>"

section \<open>Facts about sorting and listing\<close>

lemma mset_place: "mset (place cmp a bs) = add_mset a (mset bs)"
  by (induction bs) simp_all

lemma mset_array_sort: "mset (array_sort cmp xs) = mset xs"
  by (induction xs) (simp_all add: mset_place)

lemma set_place: "set (place cmp a bs) = insert a (set bs)"
  using mset_place [of cmp a bs, THEN arg_cong, of set_mset] by simp

lemma set_array_sort: "set (array_sort cmp xs) = set xs"
  using mset_array_sort [of cmp xs, THEN arg_cong, of set_mset] by simp

lemma mset_pick_order: "mset (pick_order cs xs) = mset xs"
proof (induction cs xs rule: pick_order.induct)
  case (1 xs)
  show ?case by simp
next
  case (2 c cs)
  show ?case by simp
next
  case (3 c cs x xs)
  let ?ys = "x # xs"
  let ?i = "c mod Suc (length xs)"
  have i: "?i < length ?ys" by simp
  have "mset ?ys = mset (take ?i ?ys @ ?ys ! ?i # drop (Suc ?i) ?ys)"
    by (rule arg_cong [OF id_take_nth_drop [OF i]])
  also have "\<dots> = add_mset (?ys ! ?i) (mset (take ?i ?ys @ drop (Suc ?i) ?ys))"
    by simp
  also have "\<dots> = add_mset (?ys ! ?i) (mset (pick_order cs (take ?i ?ys @ drop (Suc ?i) ?ys)))"
    by (simp only: "3.IH")
  finally show ?case by (simp del: take_Cons' drop_Suc_Cons nth_Cons')
qed

lemma mset_Array_sort: "mset (Array_sort order comparefn xs) = mset xs"
  by (simp add: Array_sort_def mset_array_sort mset_pick_order)

lemma length_Array_sort: "length (Array_sort order comparefn xs) = length xs"
  using mset_Array_sort [of order comparefn xs, THEN arg_cong, of size] by simp

lemma set_Array_sort: "set (Array_sort order comparefn xs) = set xs"
  using mset_Array_sort [of order comparefn xs, THEN arg_cong, of set_mset] by simp

lemma compare_read_back:
  assumes "reads_back read a" "reads_back read b"
  shows "\<exists>ta tb. timestamp a = Some ta \<and> timestamp b = Some tb \<and>
           mostRecentFirst read a b = Some (tb - ta)"
  using assms
  by (auto simp: reads_back_def mostRecentFirst_def new_Date_def split: option.splits)

lemma consistent_read_back:
  assumes "\<forall>f \<in> set xs. reads_back read f"
  shows "consistent (mostRecentFirst read) xs"
proof -
  have "mostRecentFirst read a b \<noteq> None \<and>
         SortCompare (mostRecentFirst read) a a = 0 \<and>
         (SortCompare (mostRecentFirst read) a b = 0 \<longrightarrow> SortCompare (mostRecentFirst read) b a = 0) \<and>
         (SortCompare (mostRecentFirst read) a b = 0 \<and> SortCompare (mostRecentFirst read) b c = 0 \<longrightarrow>
            SortCompare (mostRecentFirst read) a c = 0) \<and>
         (SortCompare (mostRecentFirst read) a b < 0 \<and> SortCompare (mostRecentFirst read) b c < 0 \<longrightarrow>
            SortCompare (mostRecentFirst read) a c < 0) \<and>
         (SortCompare (mostRecentFirst read) a b > 0 \<and> SortCompare (mostRecentFirst read) b c > 0 \<longrightarrow>
            SortCompare (mostRecentFirst read) a c > 0)"
    if "a \<in> set xs" "b \<in> set xs" "c \<in> set xs" for a b c
  proof -
    from that assms have r: "reads_back read a" "reads_back read b" "reads_back read c"
      by simp_all
    from compare_read_back [OF r(1) r(1)] compare_read_back [OF r(1) r(2)]
      compare_read_back [OF r(2) r(1)] compare_read_back [OF r(2) r(3)]
      compare_read_back [OF r(1) r(3)]
    show ?thesis by (auto simp: SortCompare_def)
  qed
  then show ?thesis
    unfolding consistent_def list_all_iff by blast
qed

lemma sorted_place:
  assumes "reads_back read a" "\<forall>b \<in> set bs. reads_back read b" "sorted_wrt not_older bs"
  shows "sorted_wrt not_older (place (SortCompare (mostRecentFirst read)) a bs)"
  using assms
proof (induction bs)
  case Nil
  then show ?case by simp
next
  case (Cons b bs)
  from Cons.prems have "reads_back read b" by simp
  from compare_read_back [OF Cons.prems(1) this]
  obtain ta tb where t: "timestamp a = Some ta" "timestamp b = Some tb"
    "SortCompare (mostRecentFirst read) a b = tb - ta"
    by (auto simp: SortCompare_def)
  show ?case
  proof (cases "0 < SortCompare (mostRecentFirst read) a b")
    case True
    with t have "ta < tb" by simp
    with t have "not_older b a" by (simp add: not_older_def)
    with True Cons show ?thesis
      by (auto simp: set_place)
  next
    case False
    with t have "tb \<le> ta" by simp
    with t have ab: "not_older a b" by (simp add: not_older_def)
    have "not_older a x" if "x \<in> set bs" for x
    proof -
      from that Cons.prems(3) have "not_older b x" by simp
      with ab show ?thesis
        by (auto simp: not_older_def split: option.splits)
    qed
    with False ab Cons.prems(3) show ?thesis by simp
  qed
qed

lemma sorted_array_sort:
  "\<forall>x \<in> set xs. reads_back read x \<Longrightarrow>
   sorted_wrt not_older (array_sort (SortCompare (mostRecentFirst read)) xs)"
proof (induction xs)
  case Nil
  then show ?case by simp
next
  case (Cons x xs)
  then have "sorted_wrt not_older
      (place (SortCompare (mostRecentFirst read)) x (array_sort (SortCompare (mostRecentFirst read)) xs))"
    by (intro sorted_place) (simp_all add: set_array_sort)
  then show ?case by simp
qed

lemma sorted_Array_sort:
  assumes "\<forall>x \<in> set xs. reads_back read x"
  shows "sorted_wrt not_older (Array_sort order (mostRecentFirst read) xs)"
  using consistent_read_back [OF assms] sorted_array_sort [OF assms]
  by (simp add: Array_sort_def)

lemma getTodaysFaces_result:
  "getTodaysFaces br today ls =
     (if truthy (user_email ls)
      then Array_sort (sort_order br) (mostRecentFirst (Date_read br))
             (case partition_of ls (the (user_email ls)) today of None \<Rightarrow> [] | Some fs \<Rightarrow> fs)
      else [], ls)"
  by (auto simp: getTodaysFaces_def truthy_def partition_of_def parse_attendance_def Let_def
      Array_sort_def consistent_def split: option.splits attendance_item.splits)

lemma getTodaysFaces_listing:
  "snd (getTodaysFaces br today ls) = ls
   \<and> getTodaysFaces br today (snd (getTodaysFaces br today ls)) = getTodaysFaces br today ls
   \<and> (user_email ls = Some owner \<and> owner \<noteq> [] \<longrightarrow>
        mset (fst (getTodaysFaces br today ls)) =
        mset (case partition_of ls owner today of None \<Rightarrow> [] | Some fs \<Rightarrow> fs))
   \<and> (\<not> truthy (user_email ls) \<longrightarrow> fst (getTodaysFaces br today ls) = [])
   \<and> ((\<forall>f \<in> set (fst (getTodaysFaces br today ls)). reads_back (Date_read br) f) \<longrightarrow>
        sorted_wrt not_older (fst (getTodaysFaces br today ls)))"
proof (intro conjI impI)
  show "snd (getTodaysFaces br today ls) = ls"
    by (simp add: getTodaysFaces_result)
  then show "getTodaysFaces br today (snd (getTodaysFaces br today ls)) = getTodaysFaces br today ls"
    by simp
next
  assume "user_email ls = Some owner \<and> owner \<noteq> []"
  then show "mset (fst (getTodaysFaces br today ls)) =
        mset (case partition_of ls owner today of None \<Rightarrow> [] | Some fs \<Rightarrow> fs)"
    by (simp add: getTodaysFaces_result truthy_def mset_Array_sort)
next
  assume "\<not> truthy (user_email ls)"
  then show "fst (getTodaysFaces br today ls) = []"
    by (simp add: getTodaysFaces_result)
next
  assume a: "\<forall>f \<in> set (fst (getTodaysFaces br today ls)). reads_back (Date_read br) f"
  show "sorted_wrt not_older (fst (getTodaysFaces br today ls))"
  proof (cases "truthy (user_email ls)")
    case False
    then show ?thesis by (simp add: getTodaysFaces_result)
  next
    case True
    let ?faces = "case partition_of ls (the (user_email ls)) today of None \<Rightarrow> [] | Some fs \<Rightarrow> fs"
    from True have r: "fst (getTodaysFaces br today ls) =
        Array_sort (sort_order br) (mostRecentFirst (Date_read br)) ?faces"
      by (simp add: getTodaysFaces_result)
    from a have "\<forall>f \<in> set ?faces. reads_back (Date_read br) f"
      unfolding r set_Array_sort .
    then have "sorted_wrt not_older (Array_sort (sort_order br) (mostRecentFirst (Date_read br)) ?faces)"
      by (rule sorted_Array_sort)
    then show ?thesis unfolding r .
  qed
qed

section \<open>Facts about \<open>addFace\<close>\<close>

lemma setUserEmail_frame:
  "setUserEmail ls = Inr (ue, ls1) \<Longrightarrow>
     attendanceData ls1 = attendanceData ls \<and> user ls1 = user ls \<and> token ls1 = token ls \<and>
     (ue = None \<and> ls1 = ls \<or> truthy ue \<and> user_email ls1 = ue)"
  by (auto simp: setUserEmail_def split: option.splits user_item.splits if_splits)

lemma resolve_frame:
  "(if truthy (user_email ls) then Inr (user_email ls, ls) else setUserEmail ls) = Inr (ue, ls1) \<Longrightarrow>
     attendanceData ls1 = attendanceData ls \<and> user ls1 = user ls \<and> token ls1 = token ls \<and>
     (ue = None \<and> ls1 = ls \<or> truthy ue \<and> user_email ls1 = ue)"
  by (auto dest: setUserEmail_frame split: if_splits)

lemma addFace_shape:
  "addFace rf today stamp ls = (r, ls') \<Longrightarrow>
     user ls' = user ls \<and> token ls' = token ls \<and>
     (r = None \<and> attendanceData ls' = attendanceData ls \<or>
      (\<exists>f email sd. rf = Some f \<and> truthy (name f) \<and> truthy (roll_number f) \<and>
         user_email ls' = Some email \<and> email \<noteq> [] \<and> r = Some (newEntry f stamp) \<and>
         parse_attendance (attendanceData ls email) = Inr sd \<and>
         \<not> isDuplicate (case map_of sd today of None \<Rightarrow> [] | Some fs \<Rightarrow> fs) f \<and>
         attendanceData ls' = (attendanceData ls)(email \<mapsto> DayMap (AList.update today
            (push_capped (case map_of sd today of None \<Rightarrow> [] | Some fs \<Rightarrow> fs) (newEntry f stamp)) sd))))"
proof (cases rf)
  case None
  assume "addFace rf today stamp ls = (r, ls')"
  with None show ?thesis by (simp add: addFace_def)
next
  case (Some f)
  assume run: "addFace rf today stamp ls = (r, ls')"
  show ?thesis
  proof (cases "\<not> truthy (name f) \<or> \<not> truthy (roll_number f)")
    case True
    with run Some show ?thesis by (auto simp: addFace_def)
  next
    case valid: False
    show ?thesis
    proof (cases "if truthy (user_email ls) then Inr (user_email ls, ls) else setUserEmail ls")
      case (Inl err)
      with run Some valid show ?thesis by (auto simp: addFace_def)
    next
      case (Inr res)
      obtain ue ls1 where res: "res = (ue, ls1)" by (cases res)
      note fr = resolve_frame [OF Inr [unfolded res]]
      show ?thesis
      proof (cases "truthy ue")
        case False
        with run Some valid Inr res fr show ?thesis
          by (auto simp: addFace_def truthy_def split: option.splits)
      next
        case True
        then obtain email where ue: "ue = Some email" "email \<noteq> []"
          by (auto simp: truthy_def split: option.splits)
        show ?thesis
        proof (cases "parse_attendance (attendanceData ls1 email)")
          case (Inl err)
          with run Some valid Inr res fr ue show ?thesis by (auto simp: addFace_def)
        next
          case sd: (Inr sd)
          let ?faces = "case map_of sd today of None \<Rightarrow> [] | Some fs \<Rightarrow> fs"
          show ?thesis
          proof (cases "isDuplicate ?faces f")
            case True
            with run Some valid Inr res fr ue sd show ?thesis
              by (auto simp: addFace_def Let_def update_conv' split: option.splits)
          next
            case False
            with run Some valid Inr res fr ue sd
            have eqs: "r = Some (newEntry f stamp)"
              "ls' = ls1\<lparr>attendanceData := (attendanceData ls1)(email \<mapsto> DayMap (AList.update today
                  (push_capped ?faces (newEntry f stamp)) sd))\<rparr>"
              by (auto simp: addFace_def Let_def update_conv' split: option.splits)
            from fr ue have ue1: "user_email ls1 = Some email" by auto
            show ?thesis
              apply (rule conjI, simp add: eqs fr)
              apply (rule conjI, simp add: eqs fr)
              apply (rule disjI2, rule exI[of _ f], rule exI[of _ email], rule exI[of _ sd])
              using Some valid False sd fr ue1 ue by (simp add: eqs)
          qed
        qed
      qed
    qed
  qed
qed


lemma parse_partition:
  "parse_attendance (attendanceData ls email) = Inr sd \<Longrightarrow> partition_of ls email d = map_of sd d"
  by (auto simp: parse_attendance_def partition_of_def split: option.splits attendance_item.splits)

lemma partition_of_upd:
  "attendanceData ls' = (attendanceData ls)(email \<mapsto> DayMap sd') \<Longrightarrow>
   partition_of ls' e d = (if e = email then map_of sd' d else partition_of ls e d)"
  by (simp add: partition_of_def)

lemma addFace_partition:
  assumes "addFace rf today stamp ls = (r, ls')"
  shows "partition_of ls' e d = partition_of ls e d \<or>
         (\<exists>f. rf = Some f \<and> r = Some (newEntry f stamp) \<and> user_email ls' = Some e \<and> d = today \<and>
           \<not> isDuplicate (case partition_of ls e today of None \<Rightarrow> [] | Some fs \<Rightarrow> fs) f \<and>
           partition_of ls' e d =
             Some (push_capped (case partition_of ls e today of None \<Rightarrow> [] | Some fs \<Rightarrow> fs)
                     (newEntry f stamp)))"
proof -
  from addFace_shape [OF assms]
  consider (same) "attendanceData ls' = attendanceData ls"
    | (added) f email sd where "rf = Some f" "user_email ls' = Some email" "r = Some (newEntry f stamp)"
        "parse_attendance (attendanceData ls email) = Inr sd"
        "\<not> isDuplicate (case map_of sd today of None \<Rightarrow> [] | Some fs \<Rightarrow> fs) f"
        "attendanceData ls' = (attendanceData ls)(email \<mapsto> DayMap (AList.update today
            (push_capped (case map_of sd today of None \<Rightarrow> [] | Some fs \<Rightarrow> fs) (newEntry f stamp)) sd))"
    by blast
  then show ?thesis
  proof cases
    case same
    then show ?thesis by (simp add: partition_of_def)
  next
    case added
    note pp = parse_partition [OF added(4)]
    show ?thesis
    proof (cases "e = email \<and> d = today")
      case True
      with added pp show ?thesis
        by (simp add: partition_of_upd [OF added(6)] update_conv')
    next
      case False
      with added pp have "partition_of ls' e d = partition_of ls e d"
        by (auto simp: partition_of_upd [OF added(6)] update_conv')
      then show ?thesis by simp
    qed
  qed
qed

lemma length_push_capped: "length (push_capped faces entry) \<le> 50"
  by (simp add: push_capped_def slice_last_def Let_def)

lemma push_capped_drop:
  "push_capped faces entry = drop (length faces + 1 - 50) (faces @ [entry])"
  by (simp add: push_capped_def slice_last_def Let_def)

lemma push_capped_full:
  "length faces = 50 \<Longrightarrow> push_capped faces entry = tl faces @ [entry]"
  by (cases faces) (simp_all add: push_capped_def slice_last_def Let_def)

lemma newEntry_keys [simp]:
  "name (newEntry f stamp) = name f" "roll_number (newEntry f stamp) = roll_number f"
  "timestamp (newEntry f stamp) = Some stamp"
  by (simp_all add: newEntry_def)

lemma distinct_push_capped:
  assumes "distinct (map g faces)" "g entry \<notin> g ` set faces"
  shows "distinct (map g (push_capped faces entry))"
proof -
  from assms have "distinct (map g (faces @ [entry]))" by simp
  then have "distinct (drop (length faces + 1 - 50) (map g (faces @ [entry])))"
    by (rule distinct_drop)
  then show ?thesis by (simp only: push_capped_drop drop_map)
qed

lemma not_isDuplicate:
  "\<not> isDuplicate faces f \<Longrightarrow> roll_number f \<notin> roll_number ` set faces \<and> name f \<notin> name ` set faces"
  by (auto simp: isDuplicate_def list_ex_iff)

lemma addFace_keeps_distinct:
  assumes run: "addFace rf today stamp ls = (r, ls')"
    and inv: "\<And>e p. partition_of ls e today = Some p \<Longrightarrow>
                distinct (map roll_number p) \<and> distinct (map name p)"
    and p: "partition_of ls' e today = Some p"
  shows "distinct (map roll_number p) \<and> distinct (map name p)"
proof -
  from addFace_partition [OF run, of e today]
  show ?thesis
  proof (elim disjE exE conjE)
    assume "partition_of ls' e today = partition_of ls e today"
    with p inv show ?thesis by simp
  next
    fix f
    let ?faces = "case partition_of ls e today of None \<Rightarrow> [] | Some fs \<Rightarrow> fs"
    assume nd: "\<not> isDuplicate ?faces f"
      and new: "partition_of ls' e today = Some (push_capped ?faces (newEntry f stamp))"
    have d: "distinct (map roll_number ?faces) \<and> distinct (map name ?faces)"
      using inv by (cases "partition_of ls e today") auto
    from new p have "p = push_capped ?faces (newEntry f stamp)" by simp
    with d not_isDuplicate [OF nd] show ?thesis
      by (simp add: distinct_push_capped)
  qed
qed


lemma addFace_success:
  assumes run: "addFace rf today stamp ls = (Some entry, ls')"
  shows "\<exists>f e. rf = Some f \<and> entry = newEntry f stamp \<and> user_email ls' = Some e \<and> e \<noteq> [] \<and>
           \<not> isDuplicate (case partition_of ls e today of None \<Rightarrow> [] | Some fs \<Rightarrow> fs) f \<and>
           partition_of ls' e today =
             Some (push_capped (case partition_of ls e today of None \<Rightarrow> [] | Some fs \<Rightarrow> fs) entry)"
proof -
  from addFace_shape [OF run]
  obtain f email sd where a: "rf = Some f" "user_email ls' = Some email" "email \<noteq> []"
      "entry = newEntry f stamp"
      "parse_attendance (attendanceData ls email) = Inr sd"
      "\<not> isDuplicate (case map_of sd today of None \<Rightarrow> [] | Some fs \<Rightarrow> fs) f"
      "attendanceData ls' = (attendanceData ls)(email \<mapsto> DayMap (AList.update today
          (push_capped (case map_of sd today of None \<Rightarrow> [] | Some fs \<Rightarrow> fs) (newEntry f stamp)) sd))"
    by auto
  note pp = parse_partition [OF a(5)]
  show ?thesis
    apply (rule exI[of _ f], rule exI[of _ email])
    using a pp by (simp add: partition_of_upd [OF a(7)] update_conv')
qed

lemma addFace_other_dates:
  "d \<noteq> today \<Longrightarrow> partition_of (snd (addFace rf today stamp ls)) e d = partition_of ls e d"
  using addFace_partition [of rf today stamp ls "fst (addFace rf today stamp ls)"
      "snd (addFace rf today stamp ls)" e d]
  by auto

lemma addFace_other_users:
  "user_email (snd (addFace rf today stamp ls)) \<noteq> Some e \<Longrightarrow>
   attendanceData (snd (addFace rf today stamp ls)) e = attendanceData ls e"
  using addFace_shape [of rf today stamp ls "fst (addFace rf today stamp ls)"
      "snd (addFace rf today stamp ls)"]
  by auto

lemma addFace_collision_skipped:
  assumes "partition_of ls e today = Some faces" "g \<in> set faces"
    "roll_number g = roll_number f \<or> name g = name f"
    "user_email (snd (addFace (Some f) today stamp ls)) = Some e"
  shows "fst (addFace (Some f) today stamp ls) = None \<and>
         attendanceData (snd (addFace (Some f) today stamp ls)) = attendanceData ls"
proof (cases "fst (addFace (Some f) today stamp ls)")
  case None
  then have "addFace (Some f) today stamp ls = (None, snd (addFace (Some f) today stamp ls))"
    by (metis prod.collapse)
  from addFace_shape [OF this] None show ?thesis by simp
next
  case (Some entry)
  then have "addFace (Some f) today stamp ls = (Some entry, snd (addFace (Some f) today stamp ls))"
    by (metis prod.collapse)
  from addFace_success [OF this] assms(1,4)
  have "\<not> isDuplicate faces f" by auto
  with assms(2,3) have False by (auto simp: isDuplicate_def list_ex_iff)
  then show ?thesis ..
qed

lemma add_sequence_distinct:
  "(\<And>e p. partition_of ls e today = Some p \<Longrightarrow> distinct (map roll_number p) \<and> distinct (map name p))
   \<Longrightarrow> partition_of (fold (\<lambda>(rf, stamp) s. snd (addFace rf today stamp s)) calls ls) e today = Some p
   \<Longrightarrow> distinct (map roll_number p) \<and> distinct (map name p)"
proof (induction calls arbitrary: ls e p)
  case Nil
  then show ?case by simp
next
  case (Cons c calls)
  obtain rf stamp where c: "c = (rf, stamp)" by (cases c)
  let ?ls1 = "snd (addFace rf today stamp ls)"
  have step: "\<And>e p. partition_of ?ls1 e today = Some p \<Longrightarrow>
                distinct (map roll_number p) \<and> distinct (map name p)"
    by (rule addFace_keeps_distinct [of rf today stamp ls "fst (addFace rf today stamp ls)" ?ls1])
       (simp_all add: Cons.prems(1))
  from Cons.prems(2) show ?case
    by (intro Cons.IH [of ?ls1 e p] step) (simp_all add: c)
qed

lemma alice_scenario:
  "length (fst (getTodaysFaces br today
      (fold (\<lambda>(rf, stamp) s. snd (addFace rf today stamp s))
         [(Some alice, t1), (Some alice_again, t2)] fresh_storage))) = 1"
  by (simp add: addFace_def getTodaysFaces_def fresh_storage_def alice_def alice_again_def
      truthy_def parse_attendance_def isDuplicate_def push_capped_def newEntry_def Let_def
      length_Array_sort)

lemma eval_two_adds:
  "fold (\<lambda>(rf, stamp) s. snd (addFace rf 20770 stamp s))
     [(Some alice, 1794567300000), (Some bob, 1794567360000)] fresh_storage
   = fresh_storage\<lparr>attendanceData := (attendanceData fresh_storage)
       (''teacher@example.org'' \<mapsto>
          DayMap [(20770, [newEntry alice 1794567300000, newEntry bob 1794567360000])])\<rparr>"
  by (simp add: addFace_def fresh_storage_def alice_def bob_def
      truthy_def parse_attendance_def isDuplicate_def push_capped_def newEntry_def Let_def)


lemma eval_busy_add:
  "addFace (Some alice) 20759 1793616900000 busy_storage =
     (Some (newEntry alice 1793616900000),
      busy_storage\<lparr>attendanceData := (attendanceData busy_storage)
        (''teacher@example.org'' \<mapsto>
           DayMap [(20758, [newEntry bob 1793530500000]), (20759, [newEntry alice 1793616900000])])\<rparr>)"
  by (simp add: addFace_def busy_storage_def alice_def bob_def
      truthy_def parse_attendance_def isDuplicate_def push_capped_def newEntry_def Let_def)

section \<open>Facts about deleting and cleaning up\<close>

lemma deleteAttendance_shape:
  "deleteAttendance rollNumber reply today ls = (ok, ls') \<Longrightarrow>
     (\<not> ok \<and> ls' = ls) \<or>
     (ok \<and> (\<exists>code tag. reply = Reply code (StatusBody tag) \<and> 200 \<le> code \<and> code < 300 \<and>
              (tag = Some ''success'' \<or> code = 200)) \<and>
       (ls' = ls \<or>
        (\<exists>owner sd faces. user_email ls = Some owner \<and>
           parse_attendance (attendanceData ls owner) = Inr sd \<and> map_of sd today = Some faces \<and>
           attendanceData ls' = (attendanceData ls)(owner \<mapsto> DayMap (AList.update today
               (filter (\<lambda>face. roll_number face \<noteq> rollNumber) faces) sd)))))"
  unfolding deleteAttendance_def axios_post_def
  by (simp add: Let_def split: if_splits option.splits sum.splits prod.splits delete_body.splits http_reply.splits)
     auto


lemma deleteAttendance_partition:
  assumes "deleteAttendance rollNumber reply today ls = (ok, ls')"
  shows "partition_of ls' e d = partition_of ls e d \<or>
         (\<exists>faces. ok \<and> user_email ls = Some e \<and> d = today \<and> partition_of ls e today = Some faces \<and>
            partition_of ls' e d = Some (filter (\<lambda>face. roll_number face \<noteq> rollNumber) faces))"
proof -
  from deleteAttendance_shape [OF assms]
  consider (same) "ls' = ls"
    | (cut) owner sd faces where "ok" "user_email ls = Some owner"
        "parse_attendance (attendanceData ls owner) = Inr sd" "map_of sd today = Some faces"
        "attendanceData ls' = (attendanceData ls)(owner \<mapsto> DayMap (AList.update today
               (filter (\<lambda>face. roll_number face \<noteq> rollNumber) faces) sd))"
    by blast
  then show ?thesis
  proof cases
    case same
    then show ?thesis by simp
  next
    case cut
    note pp = parse_partition [OF cut(3)]
    show ?thesis
    proof (cases "e = owner \<and> d = today")
      case True
      with cut pp show ?thesis
        by (simp add: partition_of_upd [OF cut(5)] update_conv')
    next
      case False
      with cut pp have "partition_of ls' e d = partition_of ls e d"
        by (auto simp: partition_of_upd [OF cut(5)] update_conv')
      then show ?thesis by simp
    qed
  qed
qed

lemma old_iff:
  "dayDifference now date > daysToKeep \<longleftrightarrow>
   real_of_int (date * 86400000) < real_of_int now - daysToKeep * 86400000"
  by (simp add: dayDifference_def field_simps)

lemma cleanup_loop_eq:
  "cleanup_loop k now dates (sd, n) =
     (filter (\<lambda>p. \<not> (fst p \<in> set dates \<and> dayDifference now (fst p) > k)) sd,
      n + length (filter (\<lambda>d. dayDifference now d > k) dates))"
proof (induction dates arbitrary: sd n)
  case Nil
  then show ?case by simp
next
  case (Cons date dates)
  show ?case
  proof (cases "dayDifference now date > k")
    case True
    have "filter (\<lambda>p. \<not> (fst p \<in> set dates \<and> dayDifference now (fst p) > k)) (AList.delete date sd)
        = filter (\<lambda>p. \<not> (fst p \<in> set (date # dates) \<and> dayDifference now (fst p) > k)) sd"
      using True by (induction sd) (auto simp: AList.delete_eq)
    with True show ?thesis by (simp add: Cons.IH)
  next
    case False
    have "filter (\<lambda>p. \<not> (fst p \<in> set dates \<and> dayDifference now (fst p) > k)) sd
        = filter (\<lambda>p. \<not> (fst p \<in> set (date # dates) \<and> dayDifference now (fst p) > k)) sd"
      using False by (intro filter_cong) auto
    with False show ?thesis by (simp add: Cons.IH)
  qed
qed

lemma cleanup_loop_keys:
  "cleanup_loop k now (Object_keys sd) (sd, 0) =
     (filter (\<lambda>p. \<not> dayDifference now (fst p) > k) sd,
      card {d. map_of sd d \<noteq> None \<and> dayDifference now d > k})"
proof -
  have f: "filter (\<lambda>p. \<not> (fst p \<in> set (Object_keys sd) \<and> dayDifference now (fst p) > k)) sd
         = filter (\<lambda>p. \<not> dayDifference now (fst p) > k) sd"
    by (intro filter_cong) (auto simp: Object_keys_def)
  have s: "{d. map_of sd d \<noteq> None \<and> dayDifference now d > k}
      = set (filter (\<lambda>d. dayDifference now d > k) (Object_keys sd))"
    by (auto simp: Object_keys_def map_of_eq_None_iff)
  have "distinct (filter (\<lambda>d. dayDifference now d > k) (Object_keys sd))"
    by (simp add: Object_keys_def)
  then have "card (set (filter (\<lambda>d. dayDifference now d > k) (Object_keys sd)))
      = length (filter (\<lambda>d. dayDifference now d > k) (Object_keys sd))"
    by (rule distinct_card)
  then have "card {d. map_of sd d \<noteq> None \<and> dayDifference now d > k}
      = length (filter (\<lambda>d. dayDifference now d > k) (Object_keys sd))"
    by (simp only: s)
  with f show ?thesis by (simp add: cleanup_loop_eq)
qed

lemma map_of_filter_keys:
  "map_of (filter (\<lambda>p. P (fst p)) sd) d = (if P d then map_of sd d else None)"
  by (induction sd) auto

lemma cleanupOldData_run:
  assumes "user_email ls = Some owner" "owner \<noteq> []"
    "parse_attendance (attendanceData ls owner) = Inr sd"
  shows "cleanupOldData k now ls =
     \<lparr>returned = None,
      logged = Some (card {d. map_of sd d \<noteq> None \<and> dayDifference now d > k}),
      storage = ls\<lparr>attendanceData := (attendanceData ls)
          (owner \<mapsto> DayMap (filter (\<lambda>p. \<not> dayDifference now (fst p) > k) sd))\<rparr>\<rparr>"
  using assms by (simp add: cleanupOldData_def cleanup_loop_keys)

lemma cleanupOldData_idle:
  assumes "\<not> (\<exists>owner sd. user_email ls = Some owner \<and> owner \<noteq> [] \<and>
      parse_attendance (attendanceData ls owner) = Inr sd)"
  shows "cleanupOldData k now ls = \<lparr>returned = None, logged = None, storage = ls\<rparr>"
  using assms by (auto simp: cleanupOldData_def split: option.splits sum.splits)

lemma cleanupOldData_returns_nothing: "returned (cleanupOldData k now ls) = None"
  by (cases "\<exists>owner sd. user_email ls = Some owner \<and> owner \<noteq> [] \<and>
      parse_attendance (attendanceData ls owner) = Inr sd")
     (auto simp: cleanupOldData_run cleanupOldData_idle)

lemma cleanupOldData_partition:
  "partition_of (storage (cleanupOldData k now ls)) e d = partition_of ls e d \<or>
   (user_email ls = Some e \<and> dayDifference now d > k \<and>
    partition_of (storage (cleanupOldData k now ls)) e d = None)"
proof (cases "\<exists>owner sd. user_email ls = Some owner \<and> owner \<noteq> [] \<and>
      parse_attendance (attendanceData ls owner) = Inr sd")
  case False
  then show ?thesis by (simp add: cleanupOldData_idle)
next
  case True
  then obtain owner sd where a: "user_email ls = Some owner" "owner \<noteq> []"
      "parse_attendance (attendanceData ls owner) = Inr sd" by blast
  show ?thesis
    using a parse_partition [OF a(3)]
    by (simp add: cleanupOldData_run [OF a] partition_of_def
          map_of_filter_keys [of "\<lambda>d. \<not> dayDifference now d > k"])
qed


lemma utc_date_bounds:
  "utc_date now * 86400000 \<le> now \<and> now < utc_date now * 86400000 + 86400000"
proof -
  have "now = utc_date now * 86400000 + now mod 86400000"
    by (simp add: utc_date_def)
  moreover have "0 \<le> now mod 86400000" "now mod 86400000 < 86400000" by simp_all
  ultimately show ?thesis by linarith
qed

lemma eight_days_old: "dayDifference now (utc_date now - 8) > 7"
proof -
  from utc_date_bounds [of now]
  have "real_of_int ((utc_date now - 8) * 86400000) < real_of_int now - 7 * 86400000"
    by (simp add: algebra_simps)
  then show ?thesis by (simp add: old_iff)
qed

lemma six_days_young: "\<not> dayDifference now (utc_date now - 6) > 7"
proof -
  from utc_date_bounds [of now]
  have "\<not> real_of_int ((utc_date now - 6) * 86400000) < real_of_int now - 7 * 86400000"
    by (simp add: algebra_simps)
  then show ?thesis by (simp add: old_iff)
qed

lemma seven_days_boundary:
  "dayDifference now (utc_date now - 7) > 7 \<longleftrightarrow> now mod 86400000 \<noteq> 0"
proof -
  have n: "now = utc_date now * 86400000 + now mod 86400000"
    by (simp add: utc_date_def)
  have m: "0 \<le> now mod 86400000" by simp
  have "real_of_int ((utc_date now - 7) * 86400000) < real_of_int now - 7 * 86400000
      \<longleftrightarrow> utc_date now * 86400000 < now"
    by (simp add: algebra_simps) linarith
  also have "\<dots> \<longleftrightarrow> now mod 86400000 \<noteq> 0"
    using n m by linarith
  finally show ?thesis by (simp add: old_iff)
qed

lemma eval_week_cleanup:
  "cleanupOldData 7 1793616900000 week_storage =
     \<lparr>returned = None, logged = Some 2,
      storage = week_storage\<lparr>attendanceData := (attendanceData week_storage)
        (''teacher@example.org'' \<mapsto> DayMap [(20753, [newEntry bob 1793098500000])])\<rparr>\<rparr>"
  by (simp add: cleanupOldData_def week_storage_def parse_attendance_def Object_keys_def
      dayDifference_def AList.delete_eq)

section \<open>Facts about the length of a day's list\<close>

lemma addFace_capped:
  assumes run: "addFace rf today stamp ls = (Some entry, ls')"
  shows "\<exists>owner. user_email ls' = Some owner \<and>
           (let old = (case partition_of ls owner today of None \<Rightarrow> [] | Some fs \<Rightarrow> fs)
            in partition_of ls' owner today = Some (drop (length old + 1 - 50) (old @ [entry])) \<and>
               length (drop (length old + 1 - 50) (old @ [entry])) \<le> 50 \<and>
               (length old = 50 \<longrightarrow> partition_of ls' owner today = Some (tl old @ [entry])))"
proof -
  from addFace_success [OF run] obtain e where
    a: "user_email ls' = Some e"
       "partition_of ls' e today =
          Some (push_capped (case partition_of ls e today of None \<Rightarrow> [] | Some fs \<Rightarrow> fs) entry)"
    by blast
  let ?old = "case partition_of ls e today of None \<Rightarrow> [] | Some fs \<Rightarrow> fs"
  have "partition_of ls' e today = Some (drop (length ?old + 1 - 50) (?old @ [entry]))"
    using a(2) by (simp only: push_capped_drop)
  moreover have "length (drop (length ?old + 1 - 50) (?old @ [entry])) \<le> 50" by simp
  moreover have "length ?old = 50 \<longrightarrow> partition_of ls' e today = Some (tl ?old @ [entry])"
    using a(2) by (simp add: push_capped_full)
  ultimately show ?thesis using a(1) by (simp add: Let_def)
qed

lemma addFace_bounded:
  assumes "\<And>e d p. partition_of ls e d = Some p \<Longrightarrow> length p \<le> 50"
    and "partition_of (snd (addFace rf today stamp ls)) e d = Some p"
  shows "length p \<le> 50"
  using addFace_partition [of rf today stamp ls "fst (addFace rf today stamp ls)"
      "snd (addFace rf today stamp ls)" e d] assms
  by (auto simp: length_push_capped)

lemma deleteAttendance_bounded:
  assumes "\<And>e d p. partition_of ls e d = Some p \<Longrightarrow> length p \<le> 50"
    and "partition_of (snd (deleteAttendance rollNumber reply today ls)) e d = Some p"
  shows "length p \<le> 50"
proof -
  have "deleteAttendance rollNumber reply today ls =
      (fst (deleteAttendance rollNumber reply today ls),
       snd (deleteAttendance rollNumber reply today ls))" by simp
  from deleteAttendance_partition [OF this, of e d]
  show ?thesis
  proof (elim disjE exE conjE)
    assume "partition_of (snd (deleteAttendance rollNumber reply today ls)) e d = partition_of ls e d"
    with assms show ?thesis by simp
  next
    fix faces
    assume f: "partition_of ls e today = Some faces"
      and "partition_of (snd (deleteAttendance rollNumber reply today ls)) e d =
            Some (filter (\<lambda>face. roll_number face \<noteq> rollNumber) faces)"
    with assms(2) have p: "p = filter (\<lambda>face. roll_number face \<noteq> rollNumber) faces" by simp
    have "length p \<le> length faces"
      unfolding p by (rule length_filter_le)
    moreover from assms(1) f have "length faces \<le> 50" by blast
    ultimately show ?thesis by linarith
  qed
qed

lemma cleanupOldData_bounded:
  assumes "\<And>e d p. partition_of ls e d = Some p \<Longrightarrow> length p \<le> 50"
    and "partition_of (storage (cleanupOldData k now ls)) e d = Some p"
  shows "length p \<le> 50"
  using cleanupOldData_partition [of k now ls e d] assms by auto

lemma eval_full_add:
  "addFace (Some alice) 20759 1793616900000 full_storage =
     (Some (newEntry alice 1793616900000),
      full_storage\<lparr>attendanceData := (attendanceData full_storage)
        (''teacher@example.org'' \<mapsto>
           DayMap [(20759, tl (map numbered [0..<50]) @ [newEntry alice 1793616900000])])\<rparr>)"
proof -
  have nd: "\<not> isDuplicate (map numbered [0..<50]) alice"
    by (auto simp: isDuplicate_def list_ex_iff numbered_def alice_def)
  have pc: "push_capped (map numbered [0..<50]) (newEntry alice 1793616900000)
      = tl (map numbered [0..<50]) @ [newEntry alice 1793616900000]"
    by (rule push_capped_full) simp
  have v: "truthy (name alice)" "truthy (roll_number alice)"
    by (simp_all add: truthy_def alice_def)
  show ?thesis
    using nd pc v
    by (simp add: addFace_def full_storage_def truthy_def parse_attendance_def Let_def)
qed

section \<open>Facts about the capture loop\<close>

lemma tryAcquire_Some:
  "tryAcquire thr now w = Some thr1 \<longleftrightarrow>
     \<not> isRecognizingRef thr \<and> \<not> now - lastRecognitionRef thr < 10000 \<and> w \<and>
     thr1 = thr\<lparr>isRecognizingRef := True\<rparr>"
  by (auto simp: tryAcquire_def)

lemma recognize_submitted:
  "recognize env ls = (submitted, ls', shown, n) \<Longrightarrow>
     n \<le> 1 \<and>
     (submitted \<longleftrightarrow> truthy (token ls) \<and>
        (\<exists>code faces. axios_post (recognize_reply env) = Inr (code, FaceArray faces))) \<and>
     (\<not> truthy (token ls) \<longrightarrow> n = 0 \<and> ls' = ls \<and> shown = [Unauthenticated])"
  by (auto simp: recognize_def split: if_splits sum.splits prod.splits recognize_body.splits
      axios_error.splits)

lemma attempt_submitted:
  "attempt env imageSrc ls = (submitted, ls', shown, n) \<Longrightarrow>
     n \<le> 1 \<and>
     (submitted \<longleftrightarrow> truthy imageSrc \<and> blob_ok env \<and> truthy (token ls) \<and>
        (\<exists>code faces. axios_post (recognize_reply env) = Inr (code, FaceArray faces))) \<and>
     (\<not> truthy (token ls) \<longrightarrow> n = 0 \<and> ls' = ls)"
  by (auto simp: attempt_def dest: recognize_submitted split: if_splits)

lemma captureAndRecognize_denied:
  "tryAcquire thr (clock_now env) (webcam_mounted env) = None \<Longrightarrow>
   captureAndRecognize env thr ls = \<lparr>refs = thr, store = ls, notices = [], posts = 0\<rparr>"
  by (simp add: captureAndRecognize_def)

lemma captureAndRecognize_admitted:
  assumes "tryAcquire thr (clock_now env) (webcam_mounted env) = Some thr1"
    and "attempt env (case webcam env of None \<Rightarrow> None | Some shot \<Rightarrow> shot) ls = (submitted, ls', shown, n)"
  shows "captureAndRecognize env thr ls =
     \<lparr>refs = \<lparr>lastRecognitionRef = (if submitted then clock_now env else lastRecognitionRef thr),
               isRecognizingRef = False\<rparr>,
      store = ls', notices = shown, posts = n\<rparr>"
proof -
  from assms(1) have t: "thr1 = thr\<lparr>isRecognizingRef := True\<rparr>"
    by (simp add: tryAcquire_Some)
  show ?thesis
    by (simp add: captureAndRecognize_def assms release_def) (simp add: t)
qed


section \<open>No duplicates within a day\<close>

text \<open>
  Claim C1. Calls of \<open>addFace\<close> with the same date key keep every list stored under that
  key free of two entries with the same \<open>roll_number\<close> and of two entries with the same
  \<open>name\<close>, whatever the sequence of calls. A call whose face has the \<open>roll_number\<close> or
  the \<open>name\<close> of an entry already in the list of the user it resolves returns no entry and
  leaves the persisted attendance data as they were. Adding Alice with roll number 1 and
  then Alice with roll number 2 to a fresh storage leaves one entry for
  \<open>getTodaysFaces\<close>.
\<close>

theorem addFace_no_duplicates:
  "((\<forall>e p. partition_of ls e today = Some p \<longrightarrow>
        distinct (map roll_number p) \<and> distinct (map name p)) \<longrightarrow>
    (\<forall>e p. partition_of (fold (\<lambda>(rf, stamp) s. snd (addFace rf today stamp s)) calls ls) e today
              = Some p \<longrightarrow>
        distinct (map roll_number p) \<and> distinct (map name p)))
   \<and> (partition_of ls owner today = Some faces \<and> g \<in> set faces \<and>
        (roll_number g = roll_number f \<or> name g = name f) \<and>
        user_email (snd (addFace (Some f) today stamp ls)) = Some owner \<longrightarrow>
          fst (addFace (Some f) today stamp ls) = None \<and>
          attendanceData (snd (addFace (Some f) today stamp ls)) = attendanceData ls)
   \<and> length (fst (getTodaysFaces br today
        (fold (\<lambda>(rf, stamp) s. snd (addFace rf today stamp s))
           [(Some alice, t1), (Some alice_again, t2)] fresh_storage))) = 1"
proof (intro conjI impI allI)
  fix e p
  assume "\<forall>e p. partition_of ls e today = Some p \<longrightarrow>
            distinct (map roll_number p) \<and> distinct (map name p)"
    and "partition_of (fold (\<lambda>(rf, stamp) s. snd (addFace rf today stamp s)) calls ls) e today = Some p"
  then have "distinct (map roll_number p) \<and> distinct (map name p)"
    by (intro add_sequence_distinct [of ls today calls e p]) auto
  then show "distinct (map roll_number p)" and "distinct (map name p)" by simp_all
next
  assume a: "partition_of ls owner today = Some faces \<and> g \<in> set faces \<and>
        (roll_number g = roll_number f \<or> name g = name f) \<and>
        user_email (snd (addFace (Some f) today stamp ls)) = Some owner"
  then have "fst (addFace (Some f) today stamp ls) = None \<and>
          attendanceData (snd (addFace (Some f) today stamp ls)) = attendanceData ls"
    by (intro addFace_collision_skipped [of ls owner today faces g f stamp]) simp_all
  then show "fst (addFace (Some f) today stamp ls) = None"
    and "attendanceData (snd (addFace (Some f) today stamp ls)) = attendanceData ls" by simp_all
next
  show "length (fst (getTodaysFaces br today
        (fold (\<lambda>(rf, stamp) s. snd (addFace rf today stamp s))
           [(Some alice, t1), (Some alice_again, t2)] fresh_storage))) = 1"
    by (rule alice_scenario)
qed

theorem addFace_no_duplicates_witness:
  "partition_of (snd (addFace (Some alice) 20759 1793616900000 busy_storage))
       ''teacher@example.org'' 20759 = Some [newEntry alice 1793616900000]
   \<and> partition_of (fold (\<lambda>(rf, stamp) s. snd (addFace rf 20759 stamp s))
         [(Some alice_again, 1793616910000), (Some bob, 1793616920000)]
         (snd (addFace (Some alice) 20759 1793616900000 busy_storage)))
       ''teacher@example.org'' 20759
     = Some [newEntry alice 1793616900000, newEntry bob 1793616920000]
   \<and> distinct (map roll_number [newEntry alice 1793616900000, newEntry bob 1793616920000])
   \<and> distinct (map name [newEntry alice 1793616900000, newEntry bob 1793616920000])
   \<and> fst (addFace (Some alice_again) 20759 1793616910000
           (snd (addFace (Some alice) 20759 1793616900000 busy_storage))) = None
   \<and> attendanceData (snd (addFace (Some alice_again) 20759 1793616910000
           (snd (addFace (Some alice) 20759 1793616900000 busy_storage))))
     = attendanceData (snd (addFace (Some alice) 20759 1793616900000 busy_storage))"
proof -
  let ?ls = "snd (addFace (Some alice) 20759 1793616900000 busy_storage)"
  let ?calls = "[(Some alice_again, 1793616910000), (Some bob, 1793616920000)]"
  have p0: "\<And>e. partition_of ?ls e 20759 =
      (if e = ''teacher@example.org'' then Some [newEntry alice 1793616900000]
       else if e = ''other@example.org'' then Some [newEntry bob 1793616800000] else None)"
    by (simp only: eval_busy_add snd_conv) (simp add: partition_of_def busy_storage_def)
  have inv: "\<forall>e p. partition_of ?ls e 20759 = Some p \<longrightarrow>
        distinct (map roll_number p) \<and> distinct (map name p)"
    by (simp add: p0)
  have p1: "partition_of (fold (\<lambda>(rf, stamp) s. snd (addFace rf 20759 stamp s)) ?calls ?ls)
       ''teacher@example.org'' 20759
     = Some [newEntry alice 1793616900000, newEntry bob 1793616920000]"
    apply (simp only: eval_busy_add snd_conv)
    by (simp add: partition_of_def addFace_def busy_storage_def alice_def alice_again_def bob_def
      truthy_def parse_attendance_def isDuplicate_def push_capped_def newEntry_def Let_def)
  have ue: "user_email (snd (addFace (Some alice_again) 20759 1793616910000 ?ls))
      = Some ''teacher@example.org''"
    apply (simp only: eval_busy_add snd_conv)
    by (simp add: addFace_def busy_storage_def alice_def alice_again_def bob_def
      truthy_def parse_attendance_def isDuplicate_def push_capped_def newEntry_def Let_def)
  from addFace_no_duplicates [of ?ls 20759 ?calls "''teacher@example.org''"
      "[newEntry alice 1793616900000]" "newEntry alice 1793616900000" alice_again 1793616910000]
    inv p0 p1 ue
  show ?thesis
    by (simp add: alice_def alice_again_def bob_def)
qed

section \<open>At most 50 entries a day\<close>

text \<open>
  Claim C2. A call of \<open>addFace\<close> that returns an entry leaves, under today's key of the
  user it resolves, the last 50 elements of the old list extended by the new entry, in the
  order of insertion: at most 50 entries, and when the old list held 50 exactly its first
  (oldest) entry is gone. If no list in the storage is longer than 50, none is after
  \<open>addFace\<close>, \<open>deleteAttendance\<close> or \<open>cleanupOldData\<close>, and \<open>getTodaysFaces\<close>
  does not write.
\<close>

theorem partition_capacity:
  "(addFace rf today stamp ls = (Some entry, ls') \<longrightarrow>
      (\<exists>owner. user_email ls' = Some owner \<and>
         (let old = (case partition_of ls owner today of None \<Rightarrow> [] | Some fs \<Rightarrow> fs)
          in partition_of ls' owner today = Some (drop (length old + 1 - 50) (old @ [entry])) \<and>
             length (drop (length old + 1 - 50) (old @ [entry])) \<le> 50 \<and>
             (length old = 50 \<longrightarrow> partition_of ls' owner today = Some (tl old @ [entry])))))
   \<and> ((\<forall>e d p. partition_of ls e d = Some p \<longrightarrow> length p \<le> 50) \<longrightarrow>
        (\<forall>e d p. partition_of (snd (addFace rf today stamp ls)) e d = Some p \<longrightarrow> length p \<le> 50)
        \<and> (\<forall>e d p. partition_of (snd (deleteAttendance rollNumber reply today ls)) e d = Some p
              \<longrightarrow> length p \<le> 50)
        \<and> (\<forall>e d p. partition_of (storage (cleanupOldData daysToKeep now ls)) e d = Some p
              \<longrightarrow> length p \<le> 50)
        \<and> snd (getTodaysFaces br today ls) = ls)"
proof (intro conjI impI allI)
  assume "addFace rf today stamp ls = (Some entry, ls')"
  then show "\<exists>owner. user_email ls' = Some owner \<and>
         (let old = (case partition_of ls owner today of None \<Rightarrow> [] | Some fs \<Rightarrow> fs)
          in partition_of ls' owner today = Some (drop (length old + 1 - 50) (old @ [entry])) \<and>
             length (drop (length old + 1 - 50) (old @ [entry])) \<le> 50 \<and>
             (length old = 50 \<longrightarrow> partition_of ls' owner today = Some (tl old @ [entry])))"
    by (rule addFace_capped)
next
  fix e d p
  assume inv: "\<forall>e d p. partition_of ls e d = Some p \<longrightarrow> length p \<le> 50"
  {
    assume "partition_of (snd (addFace rf today stamp ls)) e d = Some p"
    with inv show "length p \<le> 50"
      by (intro addFace_bounded [of ls rf today stamp e d p]) auto
  next
    assume "partition_of (snd (deleteAttendance rollNumber reply today ls)) e d = Some p"
    with inv show "length p \<le> 50"
      by (intro deleteAttendance_bounded [of ls rollNumber reply today e d p]) auto
  next
    assume "partition_of (storage (cleanupOldData daysToKeep now ls)) e d = Some p"
    with inv show "length p \<le> 50"
      by (intro cleanupOldData_bounded [of ls daysToKeep now e d p]) auto
  }
next
  show "snd (getTodaysFaces br today ls) = ls"
    by (simp add: getTodaysFaces_result)
qed

theorem partition_capacity_witness:
  "length (map numbered [0..<50]) = 50
   \<and> partition_of full_storage ''teacher@example.org'' 20759 = Some (map numbered [0..<50])
   \<and> partition_of (snd (addFace (Some alice) 20759 1793616900000 full_storage))
        ''teacher@example.org'' 20759
       = Some (tl (map numbered [0..<50]) @ [newEntry alice 1793616900000])
   \<and> length (tl (map numbered [0..<50]) @ [newEntry alice 1793616900000]) = 50"
proof -
  let ?ls' = "full_storage\<lparr>attendanceData := (attendanceData full_storage)
        (''teacher@example.org'' \<mapsto>
           DayMap [(20759, tl (map numbered [0..<50]) @ [newEntry alice 1793616900000])])\<rparr>"
  have ue: "user_email ?ls' = Some ''teacher@example.org''"
    by (simp add: full_storage_def)
  have p: "partition_of full_storage ''teacher@example.org'' 20759 = Some (map numbered [0..<50])"
    by (simp add: partition_of_def full_storage_def)
  from partition_capacity [of "Some alice" 20759 1793616900000 full_storage
      "newEntry alice 1793616900000" ?ls'] eval_full_add ue p
  have "partition_of ?ls' ''teacher@example.org'' 20759
       = Some (tl (map numbered [0..<50]) @ [newEntry alice 1793616900000])"
    by (simp add: Let_def drop_Suc)
  with p show ?thesis by (simp only: eval_full_add snd_conv) simp
qed

section \<open>What a call of \<open>addFace\<close> leaves alone\<close>

text \<open>
  Claim C10. A call of \<open>addFace\<close> changes at most the list under today's date key of the
  user it resolves (the \<open>user_email\<close> in the storage after the call): the list under any
  other date key, of any user, is what it was, and so is the whole persisted item of any other
  user. The \<open>user\<close> and \<open>token\<close> items are not written either.
\<close>

theorem addFace_frame:
  "(\<forall>e d. d \<noteq> today \<longrightarrow>
      partition_of (snd (addFace rf today stamp ls)) e d = partition_of ls e d)
   \<and> (\<forall>e. user_email (snd (addFace rf today stamp ls)) \<noteq> Some e \<longrightarrow>
        attendanceData (snd (addFace rf today stamp ls)) e = attendanceData ls e)
   \<and> user (snd (addFace rf today stamp ls)) = user ls
   \<and> token (snd (addFace rf today stamp ls)) = token ls"
  using addFace_shape [of rf today stamp ls "fst (addFace rf today stamp ls)"
      "snd (addFace rf today stamp ls)"]
  by (simp add: addFace_other_dates addFace_other_users)

theorem addFace_frame_witness:
  "partition_of (snd (addFace (Some alice) 20759 1793616900000 busy_storage))
      ''teacher@example.org'' 20758
     = Some [newEntry bob 1793530500000]
   \<and> partition_of busy_storage ''teacher@example.org'' 20758 = Some [newEntry bob 1793530500000]
   \<and> attendanceData (snd (addFace (Some alice) 20759 1793616900000 busy_storage)) ''other@example.org''
     = Some (DayMap [(20759, [newEntry bob 1793616800000])])
   \<and> attendanceData busy_storage ''other@example.org''
     = Some (DayMap [(20759, [newEntry bob 1793616800000])])
   \<and> partition_of (snd (addFace (Some alice) 20759 1793616900000 busy_storage))
      ''teacher@example.org'' 20759
     = Some [newEntry alice 1793616900000]
   \<and> partition_of busy_storage ''teacher@example.org'' 20759 = None"
proof -
  have ue: "user_email (snd (addFace (Some alice) 20759 1793616900000 busy_storage))
      = Some ''teacher@example.org''"
    by (simp only: eval_busy_add snd_conv) (simp add: busy_storage_def)
  have b: "partition_of busy_storage ''teacher@example.org'' 20758 = Some [newEntry bob 1793530500000]"
    "attendanceData busy_storage ''other@example.org''
     = Some (DayMap [(20759, [newEntry bob 1793616800000])])"
    "partition_of busy_storage ''teacher@example.org'' 20759 = None"
    by (simp_all add: partition_of_def busy_storage_def)
  have t: "partition_of (snd (addFace (Some alice) 20759 1793616900000 busy_storage))
      ''teacher@example.org'' 20759 = Some [newEntry alice 1793616900000]"
    by (simp only: eval_busy_add snd_conv) (simp add: partition_of_def)
  from addFace_frame [of 20759 "Some alice" 1793616900000 busy_storage] ue b t
  show ?thesis by simp
qed

section \<open>Rejection of invalid input\<close>

text \<open>
  Claim C9. A call of \<open>addFace\<close> whose argument is absent, or whose \<open>name\<close> or
  \<open>roll_number\<close> is not truthy, returns no entry and leaves the storage exactly as it was,
  whatever the storage holds: the check comes before the user and the day's list are read.
\<close>

theorem addFace_invalid_rejected:
  "(case recognizedFace of
      None \<Rightarrow> True
    | Some rf \<Rightarrow> \<not> truthy (name rf) \<or> \<not> truthy (roll_number rf))
   \<Longrightarrow> addFace recognizedFace today stamp ls = (None, ls)"
  by (cases recognizedFace) (auto simp: addFace_def)


theorem addFace_invalid_rejected_witness:
  "addFace (Some (alice\<lparr>roll_number := Some []\<rparr>)) 20759 1793616900000 fresh_storage
     = (None, fresh_storage)"
  using addFace_invalid_rejected [of "Some (alice\<lparr>roll_number := Some []\<rparr>)" 20759 1793616900000 fresh_storage]
  by (simp add: truthy_def alice_def)

section \<open>Deletion asks the server first\<close>

text \<open>
  Claim C3. \<open>deleteAttendance\<close> touches the storage only after the request to
  \<^verbatim>\<open>/delete_attendance\<close> has succeeded. When no response arrives, when the status is
  outside 200..299, or when the response carries neither the status 200 nor the tag
  \<^verbatim>\<open>success\<close>, the function returns \<open>False\<close> and the storage is the one it was given;
  whenever it returns \<open>False\<close> the storage, and with it the result of \<open>getTodaysFaces\<close>,
  is unchanged; and a changed storage implies a successful response.
\<close>

theorem deleteAttendance_remote_first:
  "(reply = NoResponse \<longrightarrow> deleteAttendance rollNumber reply today ls = (False, ls))
   \<and> (\<forall>code body. reply = Reply code body \<and> \<not> (200 \<le> code \<and> code < 300) \<longrightarrow>
         deleteAttendance rollNumber reply today ls = (False, ls))
   \<and> (\<forall>code tag. reply = Reply code (StatusBody tag) \<and> tag \<noteq> Some ''success'' \<and> code \<noteq> 200 \<longrightarrow>
         deleteAttendance rollNumber reply today ls = (False, ls))
   \<and> (\<not> fst (deleteAttendance rollNumber reply today ls) \<longrightarrow>
         snd (deleteAttendance rollNumber reply today ls) = ls \<and>
         getTodaysFaces br today (snd (deleteAttendance rollNumber reply today ls)) =
           getTodaysFaces br today ls)
   \<and> (snd (deleteAttendance rollNumber reply today ls) \<noteq> ls \<longrightarrow>
         (\<exists>code tag. reply = Reply code (StatusBody tag) \<and> 200 \<le> code \<and> code < 300 \<and>
            (tag = Some ''success'' \<or> code = 200)))"
proof -
  have shape: "(\<not> fst (deleteAttendance rollNumber reply today ls) \<and>
        snd (deleteAttendance rollNumber reply today ls) = ls) \<or>
     (fst (deleteAttendance rollNumber reply today ls) \<and>
       (\<exists>code tag. reply = Reply code (StatusBody tag) \<and> 200 \<le> code \<and> code < 300 \<and>
              (tag = Some ''success'' \<or> code = 200)))"
    using deleteAttendance_shape [of rollNumber reply today ls
        "fst (deleteAttendance rollNumber reply today ls)"
        "snd (deleteAttendance rollNumber reply today ls)"]
    by auto
  have a: "reply = NoResponse \<longrightarrow> deleteAttendance rollNumber reply today ls = (False, ls)"
    by (simp add: deleteAttendance_def axios_post_def split: option.splits)
  have b: "\<forall>code body. reply = Reply code body \<and> \<not> (200 \<le> code \<and> code < 300) \<longrightarrow>
         deleteAttendance rollNumber reply today ls = (False, ls)"
    by (simp add: deleteAttendance_def axios_post_def split: option.splits)
  have c: "\<forall>code tag. reply = Reply code (StatusBody tag) \<and> tag \<noteq> Some ''success'' \<and> code \<noteq> 200 \<longrightarrow>
         deleteAttendance rollNumber reply today ls = (False, ls)"
    by (simp add: deleteAttendance_def axios_post_def split: option.splits)
  have d: "\<not> fst (deleteAttendance rollNumber reply today ls) \<longrightarrow>
         snd (deleteAttendance rollNumber reply today ls) = ls \<and>
         getTodaysFaces br today (snd (deleteAttendance rollNumber reply today ls)) =
           getTodaysFaces br today ls"
    using shape by auto
  from shape a b c d show ?thesis by blast
qed

theorem deleteAttendance_remote_first_witness:
  "deleteAttendance (Some ''7'') NoResponse 20758 busy_storage = (False, busy_storage)
   \<and> deleteAttendance (Some ''7'') (Reply 500 (StatusBody (Some ''error''))) 20758 busy_storage
       = (False, busy_storage)
   \<and> deleteAttendance (Some ''7'') (Reply 204 (StatusBody None)) 20758 busy_storage
       = (False, busy_storage)
   \<and> fst (getTodaysFaces en_US 20758 (snd (deleteAttendance (Some ''7'') NoResponse 20758 busy_storage)))
       = [newEntry bob 1793530500000]
   \<and> fst (getTodaysFaces en_US 20758
            (snd (deleteAttendance (Some ''7'') (Reply 200 (StatusBody (Some ''success''))) 20758
                    busy_storage))) = []"
proof -
  have g: "fst (getTodaysFaces en_US 20758 busy_storage) = [newEntry bob 1793530500000]"
    by (simp add: getTodaysFaces_def busy_storage_def parse_attendance_def Array_sort_def
        consistent_def SortCompare_def mostRecentFirst_def new_Date_def en_US_def Let_def)
  have h: "fst (getTodaysFaces en_US 20758
            (snd (deleteAttendance (Some ''7'') (Reply 200 (StatusBody (Some ''success''))) 20758
                    busy_storage))) = []"
    by (simp add: getTodaysFaces_def deleteAttendance_def axios_post_def busy_storage_def
        parse_attendance_def truthy_def bob_def newEntry_def Array_sort_def consistent_def)
  from deleteAttendance_remote_first [of NoResponse "Some ''7''" 20758 busy_storage]
    deleteAttendance_remote_first [of "Reply 500 (StatusBody (Some ''error''))" "Some ''7''" 20758 busy_storage]
    deleteAttendance_remote_first [of "Reply 204 (StatusBody None)" "Some ''7''" 20758 busy_storage]
    g h
  show ?thesis by simp
qed

section \<open>Cleaning up old days\<close>

text \<open>
  Claim C6, as the code has it. \<open>cleanupOldData\<close> returns nothing; the count of the removed
  date keys goes to the console. For a user with readable data it removes exactly the lists
  whose date (midnight UTC of the key) precedes the instant \<open>daysToKeep\<close> days before now,
  keeps every other list and every other user's item as they were, and logs the number of
  keys removed. With 7 days, the list dated 8 days before the current UTC date goes and the
  one dated 6 days before stays; the list dated exactly 7 days before goes too, unless the
  call happens at midnight UTC sharp.
\<close>

theorem cleanupOldData_purges:
  "returned (cleanupOldData daysToKeep now ls) = None
   \<and> (user_email ls = Some owner \<and> owner \<noteq> [] \<and> attendanceData ls owner \<noteq> Some NotJSON \<longrightarrow>
        (\<forall>d. partition_of (storage (cleanupOldData daysToKeep now ls)) owner d =
               (if real_of_int (d * 86400000) < real_of_int now - daysToKeep * 86400000
                then None else partition_of ls owner d))
        \<and> (\<forall>e. e \<noteq> owner \<longrightarrow>
              attendanceData (storage (cleanupOldData daysToKeep now ls)) e = attendanceData ls e)
        \<and> logged (cleanupOldData daysToKeep now ls) =
            Some (card {d. partition_of ls owner d \<noteq> None \<and>
                           real_of_int (d * 86400000) < real_of_int now - daysToKeep * 86400000}))
   \<and> (user_email ls = Some owner \<and> owner \<noteq> [] \<and>
        partition_of ls owner (utc_date now - 8) = Some p8 \<and>
        partition_of ls owner (utc_date now - 6) = Some p6 \<longrightarrow>
          partition_of (storage (cleanupOldData 7 now ls)) owner (utc_date now - 8) = None \<and>
          partition_of (storage (cleanupOldData 7 now ls)) owner (utc_date now - 6) = Some p6)
   \<and> (user_email ls = Some owner \<and> owner \<noteq> [] \<and>
        partition_of ls owner (utc_date now - 7) = Some p7 \<longrightarrow>
          partition_of (storage (cleanupOldData 7 now ls)) owner (utc_date now - 7) =
            (if now mod 86400000 = 0 then Some p7 else None))"
proof -
  have run: "\<exists>sd. parse_attendance (attendanceData ls owner) = Inr sd"
    if "attendanceData ls owner \<noteq> Some NotJSON"
    using that by (auto simp: parse_attendance_def split: option.splits attendance_item.splits)
  have gen: "(\<forall>d. partition_of (storage (cleanupOldData k now ls)) owner d =
               (if real_of_int (d * 86400000) < real_of_int now - k * 86400000
                then None else partition_of ls owner d))
        \<and> (\<forall>e. e \<noteq> owner \<longrightarrow>
              attendanceData (storage (cleanupOldData k now ls)) e = attendanceData ls e)
        \<and> logged (cleanupOldData k now ls) =
            Some (card {d. partition_of ls owner d \<noteq> None \<and>
                           real_of_int (d * 86400000) < real_of_int now - k * 86400000})"
    if a: "user_email ls = Some owner" "owner \<noteq> []" "attendanceData ls owner \<noteq> Some NotJSON"
    for k
  proof -
    from run [OF a(3)] obtain sd where sd: "parse_attendance (attendanceData ls owner) = Inr sd" ..
    note pp = parse_partition [OF sd]
    have after: "partition_of (storage (cleanupOldData k now ls)) owner d =
        (if dayDifference now d > k then None else partition_of ls owner d)" for d
      by (simp add: cleanupOldData_run [OF a(1,2) sd] pp)
         (simp add: partition_of_def map_of_filter_keys [of "\<lambda>d. \<not> dayDifference now d > k"])
    have others: "attendanceData (storage (cleanupOldData k now ls)) e = attendanceData ls e"
      if "e \<noteq> owner" for e
      using that by (simp add: cleanupOldData_run [OF a(1,2) sd])
    have count: "logged (cleanupOldData k now ls) =
        Some (card {d. partition_of ls owner d \<noteq> None \<and> dayDifference now d > k})"
      by (simp add: cleanupOldData_run [OF a(1,2) sd] pp)
    from after others count show ?thesis
      by (simp only: old_iff) blast
  qed
  have some: "attendanceData ls owner \<noteq> Some NotJSON" if "partition_of ls owner d = Some p" for d p
    using that by (auto simp: partition_of_def)
  have ex: "partition_of (storage (cleanupOldData 7 now ls)) owner (utc_date now - 8) = None \<and>
          partition_of (storage (cleanupOldData 7 now ls)) owner (utc_date now - 6) = Some p6"
    if a: "user_email ls = Some owner" "owner \<noteq> []"
      "partition_of ls owner (utc_date now - 8) = Some p8"
      "partition_of ls owner (utc_date now - 6) = Some p6"
    using gen [OF a(1,2) some [OF a(3)], of 7] a(4)
      eight_days_old [of now] six_days_young [of now]
    by (simp add: old_iff)
  have bd: "partition_of (storage (cleanupOldData 7 now ls)) owner (utc_date now - 7) =
            (if now mod 86400000 = 0 then Some p7 else None)"
    if a: "user_email ls = Some owner" "owner \<noteq> []"
      "partition_of ls owner (utc_date now - 7) = Some p7"
    using gen [OF a(1,2) some [OF a(3)], of 7] a(3) seven_days_boundary [of now]
    by (simp add: old_iff)
  from gen [of daysToKeep] ex bd show ?thesis
    by (simp add: cleanupOldData_returns_nothing)
qed

theorem cleanupOldData_purges_witness:
  "utc_date 1793616900000 = 20759
   \<and> partition_of (storage (cleanupOldData 7 1793616900000 week_storage))
        ''teacher@example.org'' 20751 = None
   \<and> partition_of (storage (cleanupOldData 7 1793616900000 week_storage))
        ''teacher@example.org'' 20753 = Some [newEntry bob 1793098500000]
   \<and> partition_of (storage (cleanupOldData 7 1793616900000 week_storage))
        ''teacher@example.org'' 20752 = None
   \<and> returned (cleanupOldData 7 1793616900000 week_storage) = None"
proof -
  have u: "utc_date 1793616900000 = 20759" by (simp add: utc_date_def)
  have h: "user_email week_storage = Some ''teacher@example.org''"
    "attendanceData week_storage ''teacher@example.org'' \<noteq> Some NotJSON"
    "partition_of week_storage ''teacher@example.org'' 20751 = Some [newEntry bob 1792925700000]"
    "partition_of week_storage ''teacher@example.org'' 20752 = Some [newEntry alice 1793012100000]"
    "partition_of week_storage ''teacher@example.org'' 20753 = Some [newEntry bob 1793098500000]"
    by (simp_all add: week_storage_def partition_of_def)
  from cleanupOldData_purges [of 7 1793616900000 week_storage "''teacher@example.org''"
      "[newEntry bob 1792925700000]" "[newEntry bob 1793098500000]"
      "[newEntry alice 1793012100000]"] u h
  show ?thesis by simp
qed

text \<open>The claim as stated asks for the count as the returned value. Here two lists are
  removed and the count 2 is logged, but it is not what the function returns.\<close>

theorem cleanupOldData_count_counterexample:
  "partition_of week_storage ''teacher@example.org'' 20751 = Some [newEntry bob 1792925700000]
   \<and> partition_of week_storage ''teacher@example.org'' 20752 = Some [newEntry alice 1793012100000]
   \<and> partition_of (storage (cleanupOldData 7 1793616900000 week_storage))
        ''teacher@example.org'' 20751 = None
   \<and> partition_of (storage (cleanupOldData 7 1793616900000 week_storage))
        ''teacher@example.org'' 20752 = None
   \<and> logged (cleanupOldData 7 1793616900000 week_storage) = Some 2
   \<and> returned (cleanupOldData 7 1793616900000 week_storage) \<noteq> Some 2"
  by (simp only: eval_week_cleanup) (simp add: partition_of_def week_storage_def)


section \<open>Listing today's entries\<close>

text \<open>
  Claim C8. \<open>getTodaysFaces\<close> is to return today's entries ordered by timestamp, most
  recent first, without writing to the storage, the same on every call. It never writes, a
  second call returns what the first returned, and the result has exactly today's entries
  (\<open>getTodaysFaces_listing\<close>). The order, however, is computed from what \<^verbatim>\<open>new Date\<close>
  reads from the strings that \<open>addFace\<close> wrote with \<^verbatim>\<open>toLocaleString()\<close>. In a browser
  that cannot read them every comparison is \<^verbatim>\<open>NaN\<close> and the list comes back as stored:
  after Alice at 10:55:00 and Bob at 10:56:00 on 13 November 2026 the result is Alice, Bob,
  oldest first, where the claim (and the comment above the sort) asks for Bob, Alice. A
  browser that reads its own strings back returns Bob, Alice.
\<close>

theorem getTodaysFaces_oldest_first:
  "fst (getTodaysFaces day_first 20770
         (fold (\<lambda>(rf, stamp) s. snd (addFace rf 20770 stamp s))
            [(Some alice, 1794567300000), (Some bob, 1794567360000)] fresh_storage))
     = [newEntry alice 1794567300000, newEntry bob 1794567360000]
   \<and> \<not> sorted_wrt not_older [newEntry alice 1794567300000, newEntry bob 1794567360000]
   \<and> fst (getTodaysFaces en_US 20770
         (fold (\<lambda>(rf, stamp) s. snd (addFace rf 20770 stamp s))
            [(Some alice, 1794567300000), (Some bob, 1794567360000)] fresh_storage))
     = [newEntry bob 1794567360000, newEntry alice 1794567300000]
   \<and> sorted_wrt not_older [newEntry bob 1794567360000, newEntry alice 1794567300000]"
proof -
  have a: "fst (getTodaysFaces day_first 20770
         (fold (\<lambda>(rf, stamp) s. snd (addFace rf 20770 stamp s))
            [(Some alice, 1794567300000), (Some bob, 1794567360000)] fresh_storage))
     = [newEntry alice 1794567300000, newEntry bob 1794567360000]"
    by (simp only: eval_two_adds)
       (simp add: getTodaysFaces_def fresh_storage_def parse_attendance_def Array_sort_def
          consistent_def mostRecentFirst_def new_Date_def day_first_def Let_def)
  have b: "fst (getTodaysFaces en_US 20770
         (fold (\<lambda>(rf, stamp) s. snd (addFace rf 20770 stamp s))
            [(Some alice, 1794567300000), (Some bob, 1794567360000)] fresh_storage))
     = [newEntry bob 1794567360000, newEntry alice 1794567300000]"
    by (simp only: eval_two_adds)
       (simp add: getTodaysFaces_def fresh_storage_def parse_attendance_def Array_sort_def
          consistent_def SortCompare_def mostRecentFirst_def new_Date_def en_US_def Let_def)
  have c: "\<not> sorted_wrt not_older [newEntry alice 1794567300000, newEntry bob 1794567360000]"
    "sorted_wrt not_older [newEntry bob 1794567360000, newEntry alice 1794567300000]"
    by (simp_all add: not_older_def)
  from a b c show ?thesis by (intro conjI)
qed

theorem getTodaysFaces_oldest_first_witness:
  "hd (fst (getTodaysFaces day_first 20770
         (fold (\<lambda>(rf, stamp) s. snd (addFace rf 20770 stamp s))
            [(Some alice, 1794567300000), (Some bob, 1794567360000)] fresh_storage)))
     = newEntry alice 1794567300000
   \<and> last (fst (getTodaysFaces day_first 20770
         (fold (\<lambda>(rf, stamp) s. snd (addFace rf 20770 stamp s))
            [(Some alice, 1794567300000), (Some bob, 1794567360000)] fresh_storage)))
     = newEntry bob 1794567360000
   \<and> timestamp (newEntry alice 1794567300000) = Some 1794567300000
   \<and> timestamp (newEntry bob 1794567360000) = Some 1794567360000"
  using getTodaysFaces_oldest_first by simp

section \<open>The throttle\<close>

text \<open>
  Claim C4, as the code has it. A call of \<open>captureAndRecognize\<close> returns at once, for
  every state of the refs and every clock reading, when \<open>isRecognizingRef\<close> is set, and
  when it is not set and fewer than 10000 ms have passed since \<open>lastRecognitionRef\<close>; such
  a call changes nothing and posts nothing. After an attempt that started at time 0 and
  ended with a submission, a call at 9999 is turned away; a call at 10000 starts an attempt
  when the camera component is mounted, and is turned away by the third guard when it is
  not.
\<close>

theorem throttle_gate:
  "(isRecognizingRef thr \<longrightarrow> tryAcquire thr now w = None)
   \<and> (\<not> isRecognizingRef thr \<and> now - lastRecognitionRef thr < 10000 \<longrightarrow> tryAcquire thr now w = None)
   \<and> (tryAcquire thr now w = None \<and> w = (webcam_mounted env) \<and> now = clock_now env \<longrightarrow>
        captureAndRecognize env thr ls = \<lparr>refs = thr, store = ls, notices = [], posts = 0\<rparr>)
   \<and> (tryAcquire thr0 0 w0 = Some thr1 \<longrightarrow>
        tryAcquire (release thr1 0 True) 9999 w = None \<and>
        tryAcquire (release thr1 0 True) 10000 w =
          (if w then Some ((release thr1 0 True)\<lparr>isRecognizingRef := True\<rparr>) else None))"
proof (intro conjI impI)
  show "tryAcquire thr now w = None" if "isRecognizingRef thr"
    using that by (simp add: tryAcquire_def)
  show "tryAcquire thr now w = None" if "\<not> isRecognizingRef thr \<and> now - lastRecognitionRef thr < 10000"
    using that by (simp add: tryAcquire_def)
  show "captureAndRecognize env thr ls = \<lparr>refs = thr, store = ls, notices = [], posts = 0\<rparr>"
    if "tryAcquire thr now w = None \<and> w = (webcam_mounted env) \<and> now = clock_now env"
    using that by (auto simp: captureAndRecognize_denied)
next
  assume "tryAcquire thr0 0 w0 = Some thr1"
  then have r: "release thr1 0 True = \<lparr>lastRecognitionRef = 0, isRecognizingRef = False\<rparr>"
    by (cases thr0) (auto simp: tryAcquire_Some release_def)
  show "tryAcquire (release thr1 0 True) 9999 w = None"
    by (simp add: r tryAcquire_def)
  show "tryAcquire (release thr1 0 True) 10000 w =
          (if w then Some ((release thr1 0 True)\<lparr>isRecognizingRef := True\<rparr>) else None)"
    by (simp add: r tryAcquire_def)
qed

theorem throttle_gate_witness:
  "tryAcquire \<lparr>lastRecognitionRef = - 10000, isRecognizingRef = False\<rparr> 0 True
     = Some \<lparr>lastRecognitionRef = - 10000, isRecognizingRef = True\<rparr>
   \<and> release \<lparr>lastRecognitionRef = - 10000, isRecognizingRef = True\<rparr> 0 True = idle
   \<and> tryAcquire idle 9999 True = None
   \<and> tryAcquire idle 10000 True = Some \<lparr>lastRecognitionRef = 0, isRecognizingRef = True\<rparr>
   \<and> tryAcquire \<lparr>lastRecognitionRef = 0, isRecognizingRef = True\<rparr> 1793616900000 True = None
   \<and> captureAndRecognize sample_env \<lparr>lastRecognitionRef = 0, isRecognizingRef = True\<rparr> fresh_storage
       = \<lparr>refs = \<lparr>lastRecognitionRef = 0, isRecognizingRef = True\<rparr>, store = fresh_storage,
          notices = [], posts = 0\<rparr>"
proof -
  have a: "tryAcquire \<lparr>lastRecognitionRef = - 10000, isRecognizingRef = False\<rparr> 0 True
     = Some \<lparr>lastRecognitionRef = - 10000, isRecognizingRef = True\<rparr>"
    by (simp add: tryAcquire_def)
  have r: "release \<lparr>lastRecognitionRef = - 10000, isRecognizingRef = True\<rparr> 0 True = idle"
    by (simp add: release_def idle_def)
  have e: "webcam_mounted sample_env" "clock_now sample_env = 1793616900000"
    by (simp_all add: sample_env_def webcam_mounted_def)
  from throttle_gate [of "\<lparr>lastRecognitionRef = 0, isRecognizingRef = True\<rparr>" 1793616900000 True
      sample_env fresh_storage "\<lparr>lastRecognitionRef = - 10000, isRecognizingRef = False\<rparr>" True
      "\<lparr>lastRecognitionRef = - 10000, isRecognizingRef = True\<rparr>"] a r e
  show ?thesis by (simp add: idle_def)
qed

text \<open>The claim as stated lets the call at 10000 succeed on the refs and the clock alone.
  With the camera component not mounted it returns before the attempt starts.\<close>

theorem throttle_gate_counterexample:
  "tryAcquire \<lparr>lastRecognitionRef = - 10000, isRecognizingRef = False\<rparr> 0 True
     = Some \<lparr>lastRecognitionRef = - 10000, isRecognizingRef = True\<rparr>
   \<and> release \<lparr>lastRecognitionRef = - 10000, isRecognizingRef = True\<rparr> 0 True
     = \<lparr>lastRecognitionRef = 0, isRecognizingRef = False\<rparr>
   \<and> tryAcquire \<lparr>lastRecognitionRef = 0, isRecognizingRef = False\<rparr> 10000 False = None
   \<and> captureAndRecognize (sample_env\<lparr>clock_now := 10000, webcam := None\<rparr>)
        \<lparr>lastRecognitionRef = 0, isRecognizingRef = False\<rparr> fresh_storage
       = \<lparr>refs = \<lparr>lastRecognitionRef = 0, isRecognizingRef = False\<rparr>, store = fresh_storage,
          notices = [], posts = 0\<rparr>"
  by (simp add: tryAcquire_def release_def captureAndRecognize_def sample_env_def
      webcam_mounted_def)

section \<open>The end of an attempt\<close>

text \<open>
  Claim C5. Every call that gets past the guards ends with \<open>isRecognizingRef\<close> reset, on
  every path; a call turned away by the guards leaves both refs as they were.
  \<open>lastRecognitionRef\<close> changes only in a call that got past the guards, took a screenshot
  and packed it, had a token and whose POST resolved with an array of faces, and then it is
  the clock reading taken at the start of that call; such a call does set it.
\<close>

theorem attempt_release:
  "(tryAcquire thr (clock_now env) (webcam_mounted env) \<noteq> None \<longrightarrow>
      \<not> isRecognizingRef (refs (captureAndRecognize env thr ls)))
   \<and> (tryAcquire thr (clock_now env) (webcam_mounted env) = None \<longrightarrow>
        refs (captureAndRecognize env thr ls) = thr)
   \<and> (lastRecognitionRef (refs (captureAndRecognize env thr ls)) \<noteq> lastRecognitionRef thr \<longrightarrow>
        lastRecognitionRef (refs (captureAndRecognize env thr ls)) = clock_now env \<and>
        tryAcquire thr (clock_now env) (webcam_mounted env) \<noteq> None \<and>
        (\<exists>shot. webcam env = Some shot \<and> truthy shot) \<and> blob_ok env \<and>
        truthy (token ls) \<and>
        (\<exists>code faces. axios_post (recognize_reply env) = Inr (code, FaceArray faces)))
   \<and> (tryAcquire thr (clock_now env) (webcam_mounted env) \<noteq> None \<and>
        webcam env = Some imageSrc \<and> truthy imageSrc \<and> blob_ok env \<and> truthy (token ls) \<and>
        axios_post (recognize_reply env) = Inr (code, FaceArray faces) \<longrightarrow>
          refs (captureAndRecognize env thr ls) =
            \<lparr>lastRecognitionRef = clock_now env, isRecognizingRef = False\<rparr>)"
proof (cases "tryAcquire thr (clock_now env) (webcam_mounted env)")
  case None
  then show ?thesis by (simp add: captureAndRecognize_denied)
next
  case (Some thr1)
  obtain submitted ls' shown n where
    att: "attempt env (case webcam env of None \<Rightarrow> None | Some shot \<Rightarrow> shot) ls = (submitted, ls', shown, n)"
    by (metis prod_cases4)
  note run = captureAndRecognize_admitted [OF Some att]
  note sub = attempt_submitted [OF att]
  have shot: "\<exists>shot. webcam env = Some shot \<and> truthy shot"
    if "truthy (case webcam env of None \<Rightarrow> None | Some shot \<Rightarrow> shot)"
    using that by (cases "webcam env") (simp_all add: truthy_def)
  show ?thesis
    using Some sub shot by (auto simp: run)
qed



theorem attempt_release_witness:
  "tryAcquire idle (clock_now sample_env) (webcam_mounted sample_env)
     = Some \<lparr>lastRecognitionRef = 0, isRecognizingRef = True\<rparr>
   \<and> refs (captureAndRecognize sample_env idle fresh_storage)
     = \<lparr>lastRecognitionRef = 1793616900000, isRecognizingRef = False\<rparr>
   \<and> axios_post (recognize_reply (sample_env\<lparr>recognize_reply := NoResponse\<rparr>)) = Inl NetworkError
   \<and> lastRecognitionRef (refs (captureAndRecognize (sample_env\<lparr>recognize_reply := NoResponse\<rparr>)
        idle fresh_storage)) = 0
   \<and> isRecognizingRef (refs (captureAndRecognize (sample_env\<lparr>recognize_reply := NoResponse\<rparr>)
        idle fresh_storage)) = False
   \<and> refs (captureAndRecognize sample_env \<lparr>lastRecognitionRef = 1793616895000,
        isRecognizingRef = False\<rparr> fresh_storage)
     = \<lparr>lastRecognitionRef = 1793616895000, isRecognizingRef = False\<rparr>"
proof -
  let ?down = "sample_env\<lparr>recognize_reply := NoResponse\<rparr>"
  let ?soon = "\<lparr>lastRecognitionRef = 1793616895000, isRecognizingRef = False\<rparr>"
  have a: "tryAcquire idle (clock_now sample_env) (webcam_mounted sample_env)
     = Some \<lparr>lastRecognitionRef = 0, isRecognizingRef = True\<rparr>"
    "tryAcquire idle (clock_now ?down) (webcam_mounted ?down)
     = Some \<lparr>lastRecognitionRef = 0, isRecognizingRef = True\<rparr>"
    "tryAcquire ?soon (clock_now sample_env) (webcam_mounted sample_env) = None"
    by (simp_all add: tryAcquire_def idle_def sample_env_def webcam_mounted_def)
  have e: "tryAcquire idle (clock_now sample_env) (webcam_mounted sample_env) \<noteq> None \<and>
      webcam sample_env = Some (Some ''data:image/jpeg;base64,AAAA'') \<and>
      truthy (Some ''data:image/jpeg;base64,AAAA'') \<and> blob_ok sample_env \<and>
      truthy (token fresh_storage) \<and>
      axios_post (recognize_reply sample_env) = Inr (200, FaceArray [alice])"
    by (simp add: a(1)) (simp add: sample_env_def truthy_def fresh_storage_def axios_post_def)
  have now: "clock_now sample_env = 1793616900000" by (simp add: sample_env_def)
  have d: "axios_post (recognize_reply ?down) = Inl NetworkError"
    by (simp add: axios_post_def)
  have ok: "refs (captureAndRecognize sample_env idle fresh_storage)
     = \<lparr>lastRecognitionRef = 1793616900000, isRecognizingRef = False\<rparr>"
    using attempt_release [of idle sample_env fresh_storage "Some ''data:image/jpeg;base64,AAAA''"
      200 "[alice]", THEN conjunct2, THEN conjunct2, THEN conjunct2, THEN mp, OF e]
    by (simp only: now)
  have "\<not> (\<exists>code faces. axios_post (recognize_reply ?down) = Inr (code, FaceArray faces))"
    by (simp add: axios_post_def)
  with attempt_release [of idle ?down fresh_storage, THEN conjunct2, THEN conjunct2, THEN conjunct1]
  have ko1: "lastRecognitionRef (refs (captureAndRecognize ?down idle fresh_storage)) = 0"
    by (auto simp: idle_def)
  from attempt_release [of idle ?down fresh_storage, THEN conjunct1] a(2)
  have ko2: "isRecognizingRef (refs (captureAndRecognize ?down idle fresh_storage)) = False"
    by simp
  from attempt_release [of ?soon sample_env fresh_storage, THEN conjunct2, THEN conjunct1] a(3)
  have dn: "refs (captureAndRecognize sample_env ?soon fresh_storage) = ?soon"
    by simp
  from a(1) ok d ko1 ko2 dn show ?thesis by blast
qed

section \<open>Recognition without a token\<close>

text \<open>
  Claim C7. With no token in the storage (absent or empty), \<open>recognize\<close> ends at the token
  check: its only notice is \<open>Unauthenticated\<close>, \<^verbatim>\<open>axios.post\<close> is not called and the
  storage is untouched. The whole of \<open>captureAndRecognize\<close> then posts nothing either,
  whatever its other inputs, and shows exactly that notice once a frame was taken and packed.
\<close>

theorem recognize_without_token:
  "\<not> truthy (token ls) \<longrightarrow>
     recognize env ls = (False, ls, [Unauthenticated], 0)
     \<and> posts (captureAndRecognize env thr ls) = 0
     \<and> store (captureAndRecognize env thr ls) = ls
     \<and> (tryAcquire thr (clock_now env) (webcam_mounted env) \<noteq> None \<and>
         webcam env = Some imageSrc \<and> truthy imageSrc \<and> blob_ok env \<longrightarrow>
           notices (captureAndRecognize env thr ls) = [Unauthenticated])"
proof (intro impI)
  assume nt: "\<not> truthy (token ls)"
  then have r: "recognize env ls = (False, ls, [Unauthenticated], 0)"
    by (simp add: recognize_def)
  show "recognize env ls = (False, ls, [Unauthenticated], 0)
     \<and> posts (captureAndRecognize env thr ls) = 0
     \<and> store (captureAndRecognize env thr ls) = ls
     \<and> (tryAcquire thr (clock_now env) (webcam_mounted env) \<noteq> None \<and>
         webcam env = Some imageSrc \<and> truthy imageSrc \<and> blob_ok env \<longrightarrow>
           notices (captureAndRecognize env thr ls) = [Unauthenticated])"
  proof (cases "tryAcquire thr (clock_now env) (webcam_mounted env)")
    case None
    with r show ?thesis by (simp add: captureAndRecognize_denied)
  next
    case (Some thr1)
    obtain submitted ls' shown n where
      att: "attempt env (case webcam env of None \<Rightarrow> None | Some shot \<Rightarrow> shot) ls = (submitted, ls', shown, n)"
      by (metis prod_cases4)
    note run = captureAndRecognize_admitted [OF Some att]
    from attempt_submitted [OF att] nt have z: "n = 0" "ls' = ls" by simp_all
    have "shown = [Unauthenticated]"
      if "webcam env = Some imageSrc \<and> truthy imageSrc \<and> blob_ok env"
      using that att r by (simp add: attempt_def)
    with r z show ?thesis by (simp add: run)
  qed
qed

theorem recognize_without_token_witness:
  "token (fresh_storage\<lparr>token := None\<rparr>) = None
   \<and> recognize sample_env (fresh_storage\<lparr>token := None\<rparr>)
       = (False, fresh_storage\<lparr>token := None\<rparr>, [Unauthenticated], 0)
   \<and> posts (captureAndRecognize sample_env idle (fresh_storage\<lparr>token := None\<rparr>)) = 0
   \<and> store (captureAndRecognize sample_env idle (fresh_storage\<lparr>token := None\<rparr>))
       = fresh_storage\<lparr>token := None\<rparr>
   \<and> notices (captureAndRecognize sample_env idle (fresh_storage\<lparr>token := None\<rparr>))
       = [Unauthenticated]"
proof -
  have a: "tryAcquire idle (clock_now sample_env) (webcam_mounted sample_env)
     = Some \<lparr>lastRecognitionRef = 0, isRecognizingRef = True\<rparr>"
    by (simp add: tryAcquire_def idle_def sample_env_def webcam_mounted_def)
  have e: "webcam sample_env = Some (Some ''data:image/jpeg;base64,AAAA'')"
    "truthy (Some ''data:image/jpeg;base64,AAAA'')" "blob_ok sample_env"
    "\<not> truthy (token (fresh_storage\<lparr>token := None\<rparr>))"
    by (simp_all add: sample_env_def truthy_def)
  from recognize_without_token [of "fresh_storage\<lparr>token := None\<rparr>" sample_env idle
      "Some ''data:image/jpeg;base64,AAAA''"] a e
  show ?thesis by simp
qed



end
